theory Spec2Isabelle
  imports Main "HOL-Library.Sublist"
begin

section \<open>Python strings\<close>

text \<open>
  A Python \<open>str\<close> is modelled as a \<open>string\<close> (a list of \<open>char\<close>), one \<open>char\<close> per code
  point; the model covers text whose code points are below 256. On that range
  \<open>str.lower\<close> maps A-Z and the upper-case Latin-1 letters (192-222 without 215) to the
  code point 32 above, and \<open>str.strip\<close> removes the code points 9-13, 28-32, 133 and 160.
\<close>

definition lower_char :: "char \<Rightarrow> char" where
  "lower_char c =
     (let n = (of_char c :: nat)
      in if (65 \<le> n \<and> n \<le> 90) \<or> (192 \<le> n \<and> n \<le> 222 \<and> n \<noteq> 215)
         then char_of (n + 32) else c)"

definition str_lower :: "string \<Rightarrow> string" where
  "str_lower s = map lower_char s"

definition is_space :: "char \<Rightarrow> bool" where
  "is_space c =
     (let n = (of_char c :: nat)
      in (9 \<le> n \<and> n \<le> 13) \<or> (28 \<le> n \<and> n \<le> 32) \<or> n = 133 \<or> n = 160)"

definition str_strip :: "string \<Rightarrow> string" where
  "str_strip s = rev (dropWhile is_space (rev (dropWhile is_space s)))"

text \<open>\<open>s.startswith(p)\<close>.\<close>

fun str_startswith :: "string \<Rightarrow> string \<Rightarrow> bool" where
  "str_startswith s [] = True"
| "str_startswith [] (p # ps) = False"
| "str_startswith (c # cs) (p # ps) = (c = p \<and> str_startswith cs ps)"

text \<open>\<open>sub in s\<close>: \<open>sub\<close> occurs in \<open>s\<close> as a contiguous substring.\<close>

fun str_contains :: "string \<Rightarrow> string \<Rightarrow> bool" where
  "str_contains [] sub = (sub = [])"
| "str_contains (c # cs) sub = (str_startswith (c # cs) sub \<or> str_contains cs sub)"

text \<open>
  \<open>s.split(sep)\<close>: the text is cut at every occurrence of \<open>sep\<close>, scanning from the
  left, occurrences not overlapping. Python raises \<open>ValueError\<close> on an empty separator;
  every call of the program passes a non-empty literal, and the model returns the text
  uncut for an empty one.
\<close>

function str_split :: "string \<Rightarrow> string \<Rightarrow> string list" where
  "str_split sep [] = [[]]"
| "str_split sep (c # cs) =
     (if sep \<noteq> [] \<and> str_startswith (c # cs) sep
      then [] # str_split sep (drop (length sep) (c # cs))
      else (case str_split sep cs of
              [] \<Rightarrow> [[c]]
            | p # ps \<Rightarrow> (c # p) # ps))"
  by pat_completeness auto
termination
  by (relation "measure (\<lambda>(sep, s). length s)") auto

text \<open>\<open>sep.join(parts)\<close>.\<close>

fun str_join :: "string \<Rightarrow> string list \<Rightarrow> string" where
  "str_join sep [] = []"
| "str_join sep [p] = p"
| "str_join sep (p # q # ps) = p @ sep @ str_join sep (q # ps)"

text \<open>\<open>s.replace(' ', '_')\<close>, the one replacement the program makes.\<close>

definition replace_space :: "string \<Rightarrow> string" where
  "replace_space s = map (\<lambda>c. if c = CHR '' '' then CHR ''_'' else c) s"

text \<open>The decimal text of an integer, as an f-string renders it.\<close>

fun str_nat :: "nat \<Rightarrow> string" where
  "str_nat n =
     (if n < 10 then [char_of (48 + n)]
      else str_nat (n div 10) @ [char_of (48 + n mod 10)])"

definition str_int :: "int \<Rightarrow> string" where
  "str_int i = (if i < 0 then CHR ''-'' # str_nat (nat (- i)) else str_nat (nat i))"

text \<open>
  A value that is a string or \<open>None\<close>: what the entries of a parsed item hold.
  \<open>truthy\<close> is Python's truth test, \<open>py_str\<close> the text an f-string puts for the value.
\<close>

datatype pyval = PStr string | PNone

fun truthy :: "pyval \<Rightarrow> bool" where
  "truthy (PStr s) = (s \<noteq> [])"
| "truthy PNone = False"

fun py_str :: "pyval \<Rightarrow> string" where
  "py_str (PStr s) = s"
| "py_str PNone = ''None''"

fun opt_val :: "string option \<Rightarrow> pyval" where
  "opt_val None = PNone"
| "opt_val (Some s) = PStr s"

text \<open>A dictionary with string keys, in insertion order; \<open>d.get(k, default)\<close>.\<close>

type_synonym 'v dict = "(string \<times> 'v) list"

definition dict_get :: "'v dict \<Rightarrow> string \<Rightarrow> 'v \<Rightarrow> 'v" where
  "dict_get d k dflt = (case map_of d k of None \<Rightarrow> dflt | Some v \<Rightarrow> v)"

section \<open>config.py\<close>

record config =
  telegram_bot_token :: string
  admin_user_ids :: "int list"
  refresh_interval :: int
  digest_mode :: bool
  database_url :: string
  log_level :: string
  history_days :: int

definition is_admin_mode :: "config \<Rightarrow> bool" where
  "is_admin_mode c = (length (admin_user_ids c) > 0)"

definition is_admin :: "config \<Rightarrow> int \<Rightarrow> bool" where
  "is_admin c user_id =
     (if \<not> is_admin_mode c then True else user_id \<in> set (admin_user_ids c))"

definition open_config :: config where
  "open_config =
     \<lparr>telegram_bot_token = ''t'', admin_user_ids = [], refresh_interval = 10,
      digest_mode = False, database_url = ''sqlite:///bot.db'', log_level = ''INFO'',
      history_days = 7\<rparr>"

definition admin_config :: config where
  "admin_config = open_config\<lparr>admin_user_ids := [7, 11]\<rparr>"

section \<open>External collaborators and the state\<close>

text \<open>
  The libraries the program calls are parameters of the model, gathered in \<open>env\<close>:
  the configuration, SHA-256 (\<open>hashlib.sha256(...).hexdigest()\<close>), the regular
  expression engine (\<open>re.search(pattern, text, re.IGNORECASE) is not None\<close>, or the
  exception it raised), the HTTP client with feedparser, BeautifulSoup, the Telegram
  transport (whether a send to a chat succeeds or raises), and the database engine's
  failures: \<open>db_fault\<close> says which database calls raise.
\<close>

datatype error = PersistenceError | IntegrityError | ReError | HtmlError

datatype db_call =
    GetActiveFeeds
  | GetGlobalKeywords
  | GetFeedKeywords int
  | UpdateFeed int
  | IncrementError int
  | IsSent string
  | MarkSent string
  | CleanOldSentItems
  | AddKeyword

text \<open>An entry as feedparser gives it: the attributes \<open>_parse_entry\<close> reads.\<close>

record raw_entry =
  e_title :: "string option"
  e_links :: "string dict list"
  e_link :: "string option"
  e_summary :: "string option"
  e_description :: "string option"
  e_published :: "string option"
  e_updated :: "string option"
  e_media_content :: "string dict list"
  e_media_thumbnail :: "string dict list"
  e_enclosures :: "string dict list"
  e_content :: "string list"

record raw_feed =
  rf_bozo :: bool
  rf_title :: "string option"
  rf_description :: "string option"
  rf_link :: "string option"
  rf_entries :: "raw_entry list"

datatype http_result =
    HttpTimeout
  | HttpStatusError int
  | HttpOtherError string
  | HttpOk raw_feed

record env =
  cfg :: config
  sha256_hexdigest :: "string \<Rightarrow> string"
  re_search :: "string \<Rightarrow> string \<Rightarrow> error + bool"
  http_get_parse :: "string \<Rightarrow> http_result"
  bs_get_text :: "string \<Rightarrow> error + string"
  bs_find_img_src :: "string \<Rightarrow> error + string option"
  bot_delivers :: "int \<Rightarrow> string option \<Rightarrow> string \<Rightarrow> bool"
  db_fault :: "db_call \<Rightarrow> bool"

section \<open>database.py\<close>

text \<open>
  The tables are lists of rows in insertion order; times are seconds. The columns
  \<open>created_at\<close> and \<open>updated_at\<close> and the user settings are not read by the feed check
  and are left out.
\<close>

record feed =
  feed_id :: int
  feed_url :: string
  feed_title :: "string option"
  feed_description :: "string option"
  feed_is_active :: bool
  feed_error_count :: int
  feed_last_fetch :: "int option"

record keyword =
  kw_id :: int
  kw_feed_id :: "int option"
  kw_keyword :: string
  kw_keyword_type :: string
  kw_is_active :: bool

record sent_item =
  si_item_hash :: string
  si_feed_id :: int
  si_title :: pyval
  si_url :: string
  si_sent_at :: int

text \<open>One attempt of the bot to send to a chat, and whether it went through.\<close>

record delivery =
  d_chat_id :: int
  d_photo :: "string option"
  d_message :: string
  d_ok :: bool

text \<open>
  The state: the checker's \<open>is_running\<close> flag, the three tables, the clock, and two logs
  of what the program did to the outside: the URLs fetched and the sends attempted.
\<close>

record state =
  is_running :: bool
  feeds :: "feed list"
  keyword_rows :: "keyword list"
  sent_items :: "sent_item list"
  now :: int
  fetched :: "string list"
  deliveries :: "delivery list"

text \<open>\<open>query.filter(p).first()\<close> followed by a change of the row found.\<close>

fun update_first :: "('a \<Rightarrow> bool) \<Rightarrow> ('a \<Rightarrow> 'a) \<Rightarrow> 'a list \<Rightarrow> 'a list" where
  "update_first p f [] = []"
| "update_first p f (r # rs) = (if p r then f r # rs else r # update_first p f rs)"

definition get_active_feeds :: "env \<Rightarrow> state \<Rightarrow> error + feed list" where
  "get_active_feeds x s =
     (if db_fault x GetActiveFeeds then Inl PersistenceError
      else Inr (filter feed_is_active (feeds s)))"

definition update_feed ::
  "env \<Rightarrow> int \<Rightarrow> string \<Rightarrow> string \<Rightarrow> int \<Rightarrow> int \<Rightarrow> state \<Rightarrow> error option \<times> state" where
  "update_feed x fid title description last_fetch error_count s =
     (if db_fault x (UpdateFeed fid) then (Some PersistenceError, s)
      else (None, s\<lparr>feeds :=
              update_first (\<lambda>f. feed_id f = fid)
                (\<lambda>f. f\<lparr>feed_title := Some title, feed_description := Some description,
                        feed_last_fetch := Some last_fetch, feed_error_count := error_count\<rparr>)
                (feeds s)\<rparr>))"

text \<open>The body of \<open>increment_error\<close> on the row found.\<close>

definition bump_error :: "feed \<Rightarrow> feed" where
  "bump_error f =
     (let f1 = f\<lparr>feed_error_count := feed_error_count f + 1\<rparr>
      in if feed_error_count f1 \<ge> 10 then f1\<lparr>feed_is_active := False\<rparr> else f1)"

definition increment_error :: "env \<Rightarrow> int \<Rightarrow> state \<Rightarrow> error option \<times> state" where
  "increment_error x fid s =
     (if db_fault x (IncrementError fid) then (Some PersistenceError, s)
      else (None, s\<lparr>feeds := update_first (\<lambda>f. feed_id f = fid) bump_error (feeds s)\<rparr>))"

text \<open>
  \<open>add_keyword\<close>: the kind is derived from the raw input (the chain of tests on the
  prefix), and the row is added with the next free id; a failure of the commit is
  raised again.
\<close>

definition derive_keyword :: "string \<Rightarrow> string \<Rightarrow> string \<times> string" where
  "derive_keyword keyword keyword_type =
     (if str_startswith keyword ''regex:'' then (drop 7 keyword, ''regex'')
      else if str_startswith keyword ''+'' then (drop 1 keyword, ''and'')
      else if str_startswith keyword ''|'' then (drop 1 keyword, ''or'')
      else if str_contains keyword '' -'' then (keyword, ''not'')
      else (keyword, keyword_type))"

definition next_kw_id :: "keyword list \<Rightarrow> int" where
  "next_kw_id ks = fold max (map kw_id ks) 0 + 1"

definition add_keyword ::
  "env \<Rightarrow> string \<Rightarrow> int option \<Rightarrow> string \<Rightarrow> state \<Rightarrow> error + keyword \<times> state" where
  "add_keyword x keyword fid keyword_type s =
     (let (pattern, kind) = derive_keyword keyword keyword_type;
          kw = \<lparr>kw_id = next_kw_id (keyword_rows s), kw_feed_id = fid, kw_keyword = pattern,
                kw_keyword_type = kind, kw_is_active = True\<rparr>
      in if db_fault x AddKeyword then Inl PersistenceError
         else Inr (kw, s\<lparr>keyword_rows := keyword_rows s @ [kw]\<rparr>))"

definition get_global_keywords :: "env \<Rightarrow> state \<Rightarrow> error + keyword list" where
  "get_global_keywords x s =
     (if db_fault x GetGlobalKeywords then Inl PersistenceError
      else Inr (filter (\<lambda>k. kw_feed_id k = None) (keyword_rows s)))"

definition get_feed_keywords :: "env \<Rightarrow> int \<Rightarrow> state \<Rightarrow> error + keyword list" where
  "get_feed_keywords x fid s =
     (if db_fault x (GetFeedKeywords fid) then Inl PersistenceError
      else Inr (filter (\<lambda>k. kw_feed_id k = Some fid) (keyword_rows s)))"

definition is_sent :: "env \<Rightarrow> string \<Rightarrow> state \<Rightarrow> error + bool" where
  "is_sent x item_hash s =
     (if db_fault x (IsSent item_hash) then Inl PersistenceError
      else Inr (item_hash \<in> set (map si_item_hash (sent_items s))))"

text \<open>
  \<open>mark_sent\<close>: the column \<open>item_hash\<close> is declared \<open>unique=True\<close>, so the commit of a
  second row with a hash already stored raises and the row is not added.
\<close>

definition mark_sent ::
  "env \<Rightarrow> int \<Rightarrow> pyval \<Rightarrow> string \<Rightarrow> state \<Rightarrow> error option \<times> state" where
  "mark_sent x fid title url s =
     (let item_hash = sha256_hexdigest x (str_int fid @ '':'' @ url)
      in if db_fault x (MarkSent item_hash) then (Some PersistenceError, s)
         else if item_hash \<in> set (map si_item_hash (sent_items s))
         then (Some IntegrityError, s)
         else (None, s\<lparr>sent_items := sent_items s @
                 [\<lparr>si_item_hash = item_hash, si_feed_id = fid, si_title = title,
                   si_url = url, si_sent_at = now s\<rparr>]\<rparr>))"

definition clean_old_sent_items :: "env \<Rightarrow> int \<Rightarrow> state \<Rightarrow> error option \<times> state" where
  "clean_old_sent_items x days s =
     (if db_fault x CleanOldSentItems then (Some PersistenceError, s)
      else (None, s\<lparr>sent_items :=
              filter (\<lambda>i. \<not> si_sent_at i < now s - days * 86400) (sent_items s)\<rparr>))"

section \<open>rss_parser.py\<close>

text \<open>
  A parsed item is the dictionary \<open>_parse_entry\<close> returns, with the keys \<open>title\<close>,
  \<open>link\<close>, \<open>summary\<close>, \<open>published\<close> and \<open>image\<close>. An exception anywhere in
  \<open>_parse_entry\<close> is caught there and the entry is dropped (\<open>None\<close>).
\<close>

type_synonym entry = "pyval dict"

record feed_info =
  fi_title :: string
  fi_description :: string
  fi_link :: string
  fi_entries :: "entry list"

definition clean_html :: "env \<Rightarrow> string \<Rightarrow> error + string" where
  "clean_html x txt = (if txt = [] then Inr [] else bs_get_text x txt)"

definition has_type :: "string \<Rightarrow> string dict \<Rightarrow> bool" where
  "has_type pre d = str_startswith (dict_get d ''type'' []) pre"

definition extract_image :: "env \<Rightarrow> raw_entry \<Rightarrow> error + string option" where
  "extract_image x e =
     (case find (has_type ''image/'') (e_media_content e) of
        Some m \<Rightarrow> Inr (map_of m ''url'')
      | None \<Rightarrow>
          (case e_media_thumbnail e of
             t # ts \<Rightarrow> Inr (map_of t ''url'')
           | [] \<Rightarrow>
               (case find (has_type ''image/'') (e_enclosures e) of
                  Some en \<Rightarrow> Inr (map_of en ''href'')
                | None \<Rightarrow>
                    (case e_content e of
                       c # cs \<Rightarrow> bs_find_img_src x c
                     | [] \<Rightarrow> Inr None))))"

definition entry_link :: "raw_entry \<Rightarrow> string" where
  "entry_link e =
     (let link = (case find (has_type ''text/html'') (e_links e) of
                    Some l \<Rightarrow> dict_get l ''href'' []
                  | None \<Rightarrow> [])
      in if link = [] then (case e_link e of None \<Rightarrow> [] | Some l \<Rightarrow> l) else link)"

definition parse_entry :: "env \<Rightarrow> raw_entry \<Rightarrow> entry option" where
  "parse_entry x e =
     (let title = str_strip (case e_title e of None \<Rightarrow> ''Untitled'' | Some t \<Rightarrow> t);
          link = entry_link e;
          summary0 = (case e_summary e of
                        Some sm \<Rightarrow> sm
                      | None \<Rightarrow> (case e_description e of Some d \<Rightarrow> d | None \<Rightarrow> []));
          published = (case e_published e of Some p \<Rightarrow> Some p | None \<Rightarrow> e_updated e)
      in if title = [] then None
         else
           (case clean_html x summary0 of
              Inl err \<Rightarrow> None
            | Inr summary \<Rightarrow>
                (case extract_image x e of
                   Inl err \<Rightarrow> None
                 | Inr img \<Rightarrow>
                     Some [(''title'', PStr title),
                           (''link'', PStr link),
                           (''summary'', PStr (take 500 summary)),
                           (''published'', opt_val published),
                           (''image'', opt_val img)])))"

text \<open>\<open>fetch_feed\<close>: \<open>Inl\<close> carries the error message of the triple's failure case.\<close>

definition fetch_feed :: "env \<Rightarrow> string \<Rightarrow> string + feed_info" where
  "fetch_feed x url =
     (case http_get_parse x url of
        HttpTimeout \<Rightarrow> Inl ''Request timeout''
      | HttpStatusError code \<Rightarrow> Inl (''HTTP error: '' @ str_int code)
      | HttpOtherError msg \<Rightarrow> Inl msg
      | HttpOk rf \<Rightarrow>
          if rf_bozo rf \<and> rf_entries rf = [] then Inl ''Invalid RSS feed format''
          else Inr \<lparr>fi_title = (case rf_title rf of None \<Rightarrow> ''Unknown'' | Some t \<Rightarrow> t),
                    fi_description = (case rf_description rf of None \<Rightarrow> [] | Some d \<Rightarrow> d),
                    fi_link = (case rf_link rf of None \<Rightarrow> [] | Some l \<Rightarrow> l),
                    fi_entries = List.map_filter (parse_entry x) (take 50 (rf_entries rf))\<rparr>)"

section \<open>scheduler.py\<close>

text \<open>
  \<open>_match_keyword\<close>. The whole body stands in a \<open>try\<close> whose handler returns \<open>False\<close>;
  the only call that can raise is \<open>re.search\<close>.
\<close>

definition match_keyword :: "env \<Rightarrow> pyval \<Rightarrow> pyval \<Rightarrow> keyword \<Rightarrow> bool" where
  "match_keyword x title summary kw =
     (let txt = str_lower (py_str title @ '' '' @ py_str summary);
          kw_text = str_lower (kw_keyword kw)
      in if kw_keyword_type kw = ''regex'' then
           (case re_search x (kw_keyword kw) txt of Inl err \<Rightarrow> False | Inr found \<Rightarrow> found)
         else if kw_keyword_type kw = ''not'' then
           (case str_split '' -'' (kw_keyword kw) of
              [main, excl] \<Rightarrow>
                str_contains txt (str_lower (str_strip main)) \<and>
                \<not> str_contains txt (str_lower (str_strip excl))
            | parts \<Rightarrow> str_contains txt kw_text)
         else if kw_keyword_type kw = ''and'' then
           list_all (\<lambda>part. str_contains txt (str_lower (str_strip part)))
             (str_split ''+'' (kw_keyword kw))
         else if kw_keyword_type kw = ''or'' then
           list_ex (\<lambda>part. str_contains txt (str_lower (str_strip part)))
             (str_split ''|'' (kw_keyword kw))
         else str_contains txt kw_text)"

text \<open>The loop of \<open>check_entry\<close> over the rules: the patterns of the active rules that match.\<close>

definition matched_keywords :: "env \<Rightarrow> pyval \<Rightarrow> pyval \<Rightarrow> keyword list \<Rightarrow> string list" where
  "matched_keywords x title summary kws =
     map kw_keyword (filter (\<lambda>kw. kw_is_active kw \<and> match_keyword x title summary kw) kws)"

text \<open>
  The message of \<open>send_notification\<close>. Its fixed decorations (a bell and a heading, a
  newspaper and a label, in Chinese) are outside the code points of the model and stand
  here as their UTF-8 bytes; they are only concatenated.
\<close>

definition nl :: string where
  "nl = [CHR 0x0A]"

definition heading :: string where
  "heading =
     [CHR 0xF0, CHR 0x9F, CHR 0x94, CHR 0x94] @ '' <b>'' @
     [CHR 0xE5, CHR 0x85, CHR 0xB3, CHR 0xE9, CHR 0x94, CHR 0xAE, CHR 0xE8, CHR 0xAF, CHR 0x8D,
      CHR 0xE5, CHR 0x8C, CHR 0xB9, CHR 0xE9, CHR 0x85, CHR 0x8D] @ ''</b>'' @ nl @ nl"

definition source_label :: string where
  "source_label =
     [CHR 0xF0, CHR 0x9F, CHR 0x93, CHR 0xB0] @ '' '' @
     [CHR 0xE6, CHR 0x9D, CHR 0xA5, CHR 0xE6, CHR 0xBA, CHR 0x90] @ '': ''"

definition render_message :: "feed \<Rightarrow> entry \<Rightarrow> string list \<Rightarrow> string" where
  "render_message fd entry matched =
     (let title = dict_get entry ''title'' (PStr ''Untitled'');
          summary = dict_get entry ''summary'' (PStr []);
          keywords_str = str_join '' '' (map (\<lambda>kw. ''#'' @ replace_space kw) (take 5 matched))
      in heading @
         ''<b>'' @ py_str title @ ''</b>'' @ nl @ nl @
         source_label @
           (case feed_title fd of None \<Rightarrow> ''Unknown'' | Some t \<Rightarrow> if t = [] then ''Unknown'' else t)
           @ nl @
         (if truthy summary then nl @ take 200 (py_str summary) @ ''...'' @ nl else []) @
         nl @ keywords_str)"

text \<open>
  The functions of the checker are coroutines. At an \<open>await\<close> that suspends (the HTTP
  request of \<open>fetch_feed\<close>, a send of the bot) the event loop runs the other tasks;
  the parameter \<open>others\<close> of the \<open>_async\<close> functions is what these tasks do to the shared
  state meanwhile. The names without \<open>_async\<close> are the same coroutines run alone: no
  other task touches the state.
\<close>

text \<open>
  \<open>send_notification\<close>: one attempt per configured admin, a photo with caption when the
  item has an image and a text message otherwise; a send that raises is logged and the
  loop goes on, so the function never raises.
\<close>

definition send_notification_async ::
  "(state \<Rightarrow> state) \<Rightarrow> env \<Rightarrow> feed \<Rightarrow> entry \<Rightarrow> string list \<Rightarrow> state \<Rightarrow> state" where
  "send_notification_async others x fd entry matched s =
     (let img = dict_get entry ''image'' PNone;
          photo = (if truthy img then Some (py_str img) else None);
          message = render_message fd entry matched
      in foldl
           (\<lambda>t admin_id.
              others (t\<lparr>deliveries := deliveries t @
                [\<lparr>d_chat_id = admin_id, d_photo = photo, d_message = message,
                  d_ok = bot_delivers x admin_id photo message\<rparr>]\<rparr>))
           s (admin_user_ids (cfg x)))"

definition check_entry_async ::
  "(state \<Rightarrow> state) \<Rightarrow> env \<Rightarrow> feed \<Rightarrow> entry \<Rightarrow> keyword list \<Rightarrow> state \<Rightarrow>
   error option \<times> state" where
  "check_entry_async others x fd entry kws s =
     (let title = dict_get entry ''title'' (PStr []);
          summary = dict_get entry ''summary'' (PStr []);
          url = dict_get entry ''url'' (PStr []);
          item_hash = sha256_hexdigest x (str_int (feed_id fd) @ '':'' @ py_str url);
          matched = matched_keywords x title summary kws
      in if \<not> truthy url then (None, s)
         else
           (case is_sent x item_hash s of
              Inl err \<Rightarrow> (Some err, s)
            | Inr True \<Rightarrow> (None, s)
            | Inr False \<Rightarrow>
                if matched \<noteq> [] then
                  mark_sent x (feed_id fd) title (py_str url)
                    (send_notification_async others x fd entry matched s)
                else (None, s)))"

text \<open>A loop that an exception leaves: the rest of the list is not visited.\<close>

fun check_entries_async ::
  "(state \<Rightarrow> state) \<Rightarrow> env \<Rightarrow> feed \<Rightarrow> entry list \<Rightarrow> keyword list \<Rightarrow> state \<Rightarrow>
   error option \<times> state" where
  "check_entries_async others x fd [] kws s = (None, s)"
| "check_entries_async others x fd (entry # rest) kws s =
     (case check_entry_async others x fd entry kws s of
        (Some err, s') \<Rightarrow> (Some err, s')
      | (None, s') \<Rightarrow> check_entries_async others x fd rest kws s')"

text \<open>The \<open>try\<close> block of \<open>check_feed\<close>, and \<open>check_feed\<close> with its handler.\<close>

definition check_feed_body_async ::
  "(state \<Rightarrow> state) \<Rightarrow> env \<Rightarrow> feed \<Rightarrow> keyword list \<Rightarrow> state \<Rightarrow> error option \<times> state" where
  "check_feed_body_async others x fd global_keywords s =
     (case get_feed_keywords x (feed_id fd) s of
        Inl err \<Rightarrow> (Some err, s)
      | Inr feed_keywords \<Rightarrow>
          (let all_keywords = global_keywords @ feed_keywords;
               s1 = others (s\<lparr>fetched := fetched s @ [feed_url fd]\<rparr>)
           in if all_keywords = [] then (None, s)
              else
                (case fetch_feed x (feed_url fd) of
                   Inl msg \<Rightarrow> increment_error x (feed_id fd) s1
                 | Inr feed_data \<Rightarrow>
                     (case update_feed x (feed_id fd) (fi_title feed_data)
                             (fi_description feed_data) (now s1) 0 s1 of
                        (Some err, s2) \<Rightarrow> (Some err, s2)
                      | (None, s2) \<Rightarrow>
                          check_entries_async others x fd (fi_entries feed_data)
                            all_keywords s2))))"

definition check_feed_async ::
  "(state \<Rightarrow> state) \<Rightarrow> env \<Rightarrow> feed \<Rightarrow> keyword list \<Rightarrow> state \<Rightarrow> error option \<times> state" where
  "check_feed_async others x fd global_keywords s =
     (case check_feed_body_async others x fd global_keywords s of
        (None, s') \<Rightarrow> (None, s')
      | (Some err, s') \<Rightarrow> increment_error x (feed_id fd) s')"

fun check_feeds_async ::
  "(state \<Rightarrow> state) \<Rightarrow> env \<Rightarrow> feed list \<Rightarrow> keyword list \<Rightarrow> state \<Rightarrow>
   error option \<times> state" where
  "check_feeds_async others x [] global_keywords s = (None, s)"
| "check_feeds_async others x (fd # rest) global_keywords s =
     (case check_feed_async others x fd global_keywords s of
        (Some err, s') \<Rightarrow> (Some err, s')
      | (None, s') \<Rightarrow> check_feeds_async others x rest global_keywords s')"

text \<open>
  \<open>check_all_feeds\<close>: the guard, the \<open>try\<close> block (an exception in it is logged and
  swallowed), and the \<open>finally\<close> block, which clears the guard and then purges the old
  records; a failure of the purge leaves the function as an exception. Between the
  test of the guard and its setting there is no \<open>await\<close>.
\<close>

definition sweep_body_async ::
  "(state \<Rightarrow> state) \<Rightarrow> env \<Rightarrow> state \<Rightarrow> error option \<times> state" where
  "sweep_body_async others x s =
     (case get_active_feeds x s of
        Inl err \<Rightarrow> (Some err, s)
      | Inr fds \<Rightarrow>
          (case get_global_keywords x s of
             Inl err \<Rightarrow> (Some err, s)
           | Inr global_keywords \<Rightarrow> check_feeds_async others x fds global_keywords s))"

definition check_all_feeds_async ::
  "(state \<Rightarrow> state) \<Rightarrow> env \<Rightarrow> state \<Rightarrow> error option \<times> state" where
  "check_all_feeds_async others x s =
     (if is_running s then (None, s)
      else
        let s1 = s\<lparr>is_running := True\<rparr>;
            s2 = snd (sweep_body_async others x s1);
            s3 = s2\<lparr>is_running := False\<rparr>
        in clean_old_sent_items x (history_days (cfg x)) s3)"

text \<open>The coroutines run alone.\<close>

definition send_notification :: "env \<Rightarrow> feed \<Rightarrow> entry \<Rightarrow> string list \<Rightarrow> state \<Rightarrow> state" where
  "send_notification x fd entry matched s =
     send_notification_async (\<lambda>t. t) x fd entry matched s"

definition check_entry ::
  "env \<Rightarrow> feed \<Rightarrow> entry \<Rightarrow> keyword list \<Rightarrow> state \<Rightarrow> error option \<times> state" where
  "check_entry x fd entry kws s = check_entry_async (\<lambda>t. t) x fd entry kws s"

definition check_entries ::
  "env \<Rightarrow> feed \<Rightarrow> entry list \<Rightarrow> keyword list \<Rightarrow> state \<Rightarrow> error option \<times> state" where
  "check_entries x fd entries kws s = check_entries_async (\<lambda>t. t) x fd entries kws s"

definition check_feed_body ::
  "env \<Rightarrow> feed \<Rightarrow> keyword list \<Rightarrow> state \<Rightarrow> error option \<times> state" where
  "check_feed_body x fd global_keywords s =
     check_feed_body_async (\<lambda>t. t) x fd global_keywords s"

definition check_feed ::
  "env \<Rightarrow> feed \<Rightarrow> keyword list \<Rightarrow> state \<Rightarrow> error option \<times> state" where
  "check_feed x fd global_keywords s = check_feed_async (\<lambda>t. t) x fd global_keywords s"

definition check_feeds :: "env \<Rightarrow> feed list \<Rightarrow> keyword list \<Rightarrow> state \<Rightarrow> error option \<times> state" where
  "check_feeds x fds global_keywords s = check_feeds_async (\<lambda>t. t) x fds global_keywords s"

definition sweep_body :: "env \<Rightarrow> state \<Rightarrow> error option \<times> state" where
  "sweep_body x s = sweep_body_async (\<lambda>t. t) x s"

definition check_all_feeds :: "env \<Rightarrow> state \<Rightarrow> error option \<times> state" where
  "check_all_feeds x s = check_all_feeds_async (\<lambda>t. t) x s"

text \<open>
  Triggers of \<open>check_all_feeds\<close> that fire while a sweep is suspended: at every \<open>await\<close>
  one more call of \<open>check_all_feeds\<close> runs, and at every \<open>await\<close> of that call another
  one, \<open>n\<close> deep.
\<close>

primrec triggers :: "nat \<Rightarrow> env \<Rightarrow> state \<Rightarrow> state" where
  "triggers 0 x = (\<lambda>s. s)"
| "triggers (Suc n) x = (\<lambda>s. snd (check_all_feeds_async (triggers n x) x s))"

section \<open>The specification's reading of a \<open>not\<close> rule\<close>

text \<open>
  The specification words the matching of a \<open>not\<close> rule differently from the code: the
  pattern is cut at the first occurrence of \<open>" -"\<close> only, and the rule falls back to
  plain containment unless both parts are non-empty. This second definition follows
  those words, for comparison with \<open>match_keyword\<close>.
\<close>

fun split_first :: "string \<Rightarrow> string \<Rightarrow> (string \<times> string) option" where
  "split_first sep [] = None"
| "split_first sep (c # cs) =
     (if str_startswith (c # cs) sep then Some ([], drop (length sep) (c # cs))
      else (case split_first sep cs of
              None \<Rightarrow> None
            | Some (a, b) \<Rightarrow> Some (c # a, b)))"

definition spec_match_not :: "pyval \<Rightarrow> pyval \<Rightarrow> string \<Rightarrow> bool" where
  "spec_match_not title summary pattern =
     (let txt = str_lower (py_str title @ '' '' @ py_str summary)
      in case split_first '' -'' pattern of
           Some (main, excl) \<Rightarrow>
             if main \<noteq> [] \<and> excl \<noteq> []
             then str_contains txt (str_lower main) \<and> \<not> str_contains txt (str_lower excl)
             else str_contains txt (str_lower pattern)
         | None \<Rightarrow> str_contains txt (str_lower pattern))"

text \<open>A rule with two exclusions, on which the two readings differ.\<close>

definition game_rule :: keyword where
  "game_rule =
     \<lparr>kw_id = 4, kw_feed_id = None, kw_keyword = ''python -snake -game'',
      kw_keyword_type = ''not'', kw_is_active = True\<rparr>"

section \<open>Relations between states\<close>

text \<open>
  \<open>stays_off\<close> relates a feed row before and after a step: the row keeps its id and is
  active after the step only if it was before. \<open>quiet_step\<close> relates two states when
  the guard and the rules are unchanged and every feed row \<open>stays_off\<close>.
\<close>

definition stays_off :: "feed \<Rightarrow> feed \<Rightarrow> bool" where
  "stays_off r r' = (feed_id r' = feed_id r \<and> (feed_is_active r' \<longrightarrow> feed_is_active r))"

definition quiet_step :: "state \<Rightarrow> state \<Rightarrow> bool" where
  "quiet_step s s' =
     (is_running s' = is_running s \<and> keyword_rows s' = keyword_rows s \<and>
      list_all2 stays_off (feeds s) (feeds s'))"

section \<open>Example data\<close>

text \<open>
  A feed with the global rule \<open>release\<close>, whose document holds one entry titled
  \<open>New Release v2\<close> with the link \<open>u1\<close>; one admin; every library succeeds. The
  toy regular expression engine rejects \<open>(unclosed\<close> and searches every other
  pattern literally; the toy hash is the identity.
\<close>

definition release_rule :: keyword where
  "release_rule =
     \<lparr>kw_id = 1, kw_feed_id = None, kw_keyword = ''release'', kw_keyword_type = ''normal'',
      kw_is_active = True\<rparr>"

definition unclosed_rule :: keyword where
  "unclosed_rule =
     \<lparr>kw_id = 2, kw_feed_id = None, kw_keyword = ''(unclosed'', kw_keyword_type = ''regex'',
      kw_is_active = True\<rparr>"

definition snake_rule :: keyword where
  "snake_rule =
     \<lparr>kw_id = 3, kw_feed_id = None, kw_keyword = ''python -snake'', kw_keyword_type = ''not'',
      kw_is_active = True\<rparr>"

definition demo_feed :: feed where
  "demo_feed =
     \<lparr>feed_id = 1, feed_url = ''http://feed'', feed_title = Some ''Demo'',
      feed_description = None, feed_is_active = True, feed_error_count = 0,
      feed_last_fetch = None\<rparr>"

definition demo_raw_entry :: raw_entry where
  "demo_raw_entry =
     \<lparr>e_title = Some ''New Release v2'', e_links = [], e_link = Some ''u1'',
      e_summary = None, e_description = None, e_published = None, e_updated = None,
      e_media_content = [], e_media_thumbnail = [], e_enclosures = [], e_content = []\<rparr>"

definition demo_raw_feed :: raw_feed where
  "demo_raw_feed =
     \<lparr>rf_bozo = False, rf_title = Some ''Demo'', rf_description = None, rf_link = None,
      rf_entries = [demo_raw_entry]\<rparr>"

definition demo_env :: env where
  "demo_env =
     \<lparr>cfg = open_config\<lparr>admin_user_ids := [7]\<rparr>,
      sha256_hexdigest = (\<lambda>s. s),
      re_search = (\<lambda>pattern txt.
         if pattern = ''(unclosed'' then Inl ReError else Inr (str_contains txt pattern)),
      http_get_parse = (\<lambda>url. if url = ''http://feed'' then HttpOk demo_raw_feed else HttpTimeout),
      bs_get_text = (\<lambda>txt. Inr txt),
      bs_find_img_src = (\<lambda>txt. Inr None),
      bot_delivers = (\<lambda>chat photo message. True),
      db_fault = (\<lambda>c. False)\<rparr>"

definition demo_state :: state where
  "demo_state =
     \<lparr>is_running = False, feeds = [demo_feed], keyword_rows = [release_rule],
      sent_items = [], now = 1000, fetched = [], deliveries = []\<rparr>"

text \<open>An item that carries its address under the key \<open>url\<close>, the key \<open>check_entry\<close> reads.\<close>

definition demo_item :: entry where
  "demo_item =
     [(''title'', PStr ''New Release v2''), (''summary'', PStr []), (''url'', PStr ''u1'')]"

text \<open>The same entry without any link, and the document that holds it.\<close>

definition linkless_raw_entry :: raw_entry where
  "linkless_raw_entry = demo_raw_entry\<lparr>e_link := None\<rparr>"

definition linkless_env :: env where
  "linkless_env =
     demo_env\<lparr>http_get_parse :=
       (\<lambda>url. HttpOk (demo_raw_feed\<lparr>rf_entries := [linkless_raw_entry]\<rparr>))\<rparr>"

text \<open>A transport on which every send raises.\<close>

definition failing_env :: env where
  "failing_env = demo_env\<lparr>bot_delivers := (\<lambda>chat photo message. False)\<rparr>"

text \<open>A source that times out, a feed already disabled, and a database that is down.\<close>

definition down_env :: env where
  "down_env = demo_env\<lparr>http_get_parse := (\<lambda>url. HttpTimeout)\<rparr>"

definition disabled_state :: state where
  "disabled_state =
     demo_state\<lparr>feeds := [demo_feed\<lparr>feed_is_active := False, feed_error_count := 10\<rparr>]\<rparr>"

definition faulty_env :: env where
  "faulty_env = demo_env\<lparr>db_fault := (\<lambda>c. True)\<rparr>"

text \<open>The same transport with a database that refuses to record the fingerprint.\<close>

definition mark_fault_env :: env where
  "mark_fault_env = failing_env\<lparr>db_fault := (\<lambda>c. c = MarkSent ''1:u1'')\<rparr>"

section \<open>The coroutines run alone\<close>

text \<open>With no other task, the functions of the checker are plain state transformers.\<close>

lemma foldl_deliveries:
  "foldl (\<lambda>t a. t\<lparr>deliveries := deliveries t @ [d a]\<rparr>) s as =
   s\<lparr>deliveries := deliveries s @ map d as\<rparr>"
  by (induction as arbitrary: s) simp_all

lemma send_notification_unfold:
  "send_notification x fd entry matched s =
     (let img = dict_get entry ''image'' PNone;
          photo = (if truthy img then Some (py_str img) else None);
          message = render_message fd entry matched
      in s\<lparr>deliveries := deliveries s @
             map (\<lambda>admin_id. \<lparr>d_chat_id = admin_id, d_photo = photo, d_message = message,
                                d_ok = bot_delivers x admin_id photo message\<rparr>)
               (admin_user_ids (cfg x))\<rparr>)"
  by (simp add: send_notification_def send_notification_async_def Let_def foldl_deliveries)

lemma check_entry_unfold:
  "check_entry x fd entry kws s =
     (let title = dict_get entry ''title'' (PStr []);
          summary = dict_get entry ''summary'' (PStr []);
          url = dict_get entry ''url'' (PStr []);
          item_hash = sha256_hexdigest x (str_int (feed_id fd) @ '':'' @ py_str url);
          matched = matched_keywords x title summary kws
      in if \<not> truthy url then (None, s)
         else
           (case is_sent x item_hash s of
              Inl err \<Rightarrow> (Some err, s)
            | Inr True \<Rightarrow> (None, s)
            | Inr False \<Rightarrow>
                if matched \<noteq> [] then
                  mark_sent x (feed_id fd) title (py_str url)
                    (send_notification x fd entry matched s)
                else (None, s)))"
  unfolding check_entry_def check_entry_async_def send_notification_def by simp

lemma check_entries_Nil [simp]: "check_entries x fd [] kws s = (None, s)"
  by (simp add: check_entries_def)

lemma check_entries_Cons [simp]:
  "check_entries x fd (entry # rest) kws s =
     (case check_entry x fd entry kws s of
        (Some err, s') \<Rightarrow> (Some err, s')
      | (None, s') \<Rightarrow> check_entries x fd rest kws s')"
  unfolding check_entries_def check_entry_def by simp

lemma check_feed_body_unfold:
  "check_feed_body x fd global_keywords s =
     (case get_feed_keywords x (feed_id fd) s of
        Inl err \<Rightarrow> (Some err, s)
      | Inr feed_keywords \<Rightarrow>
          (let all_keywords = global_keywords @ feed_keywords;
               s1 = s\<lparr>fetched := fetched s @ [feed_url fd]\<rparr>
           in if all_keywords = [] then (None, s)
              else
                (case fetch_feed x (feed_url fd) of
                   Inl msg \<Rightarrow> increment_error x (feed_id fd) s1
                 | Inr feed_data \<Rightarrow>
                     (case update_feed x (feed_id fd) (fi_title feed_data)
                             (fi_description feed_data) (now s1) 0 s1 of
                        (Some err, s2) \<Rightarrow> (Some err, s2)
                      | (None, s2) \<Rightarrow>
                          check_entries x fd (fi_entries feed_data) all_keywords s2))))"
  unfolding check_feed_body_def check_feed_body_async_def check_entries_def by simp

lemma check_feed_unfold:
  "check_feed x fd global_keywords s =
     (case check_feed_body x fd global_keywords s of
        (None, s') \<Rightarrow> (None, s')
      | (Some err, s') \<Rightarrow> increment_error x (feed_id fd) s')"
  unfolding check_feed_def check_feed_async_def check_feed_body_def by simp

lemma check_feeds_Nil [simp]: "check_feeds x [] global_keywords s = (None, s)"
  by (simp add: check_feeds_def)

lemma check_feeds_Cons [simp]:
  "check_feeds x (fd # rest) global_keywords s =
     (case check_feed x fd global_keywords s of
        (Some err, s') \<Rightarrow> (Some err, s')
      | (None, s') \<Rightarrow> check_feeds x rest global_keywords s')"
  unfolding check_feeds_def check_feed_def by simp

lemma sweep_body_unfold:
  "sweep_body x s =
     (case get_active_feeds x s of
        Inl err \<Rightarrow> (Some err, s)
      | Inr fds \<Rightarrow>
          (case get_global_keywords x s of
             Inl err \<Rightarrow> (Some err, s)
           | Inr global_keywords \<Rightarrow> check_feeds x fds global_keywords s))"
  unfolding sweep_body_def sweep_body_async_def check_feeds_def by simp

lemma check_all_feeds_unfold:
  "check_all_feeds x s =
     (if is_running s then (None, s)
      else
        let s1 = s\<lparr>is_running := True\<rparr>;
            s2 = snd (sweep_body x s1);
            s3 = s2\<lparr>is_running := False\<rparr>
        in clean_old_sent_items x (history_days (cfg x)) s3)"
  unfolding check_all_feeds_def check_all_feeds_async_def sweep_body_def by simp

section \<open>Properties of the configuration\<close>

text \<open>
  C10. With an empty list of admin user ids \<open>is_admin\<close> holds for every user id; with
  a non-empty list it holds exactly for the user ids in the list.
\<close>

theorem is_admin_empty_or_member:
  "(admin_user_ids c = [] \<longrightarrow> is_admin c user_id) \<and>
   (admin_user_ids c \<noteq> [] \<longrightarrow> (is_admin c user_id \<longleftrightarrow> user_id \<in> set (admin_user_ids c)))"
  by (simp add: is_admin_def is_admin_mode_def)

theorem is_admin_empty_or_member_witness:
  "is_admin open_config 8 \<and> is_admin admin_config 7 \<and> \<not> is_admin admin_config 8"
proof -
  have e: "admin_user_ids open_config = []"
    by (simp add: open_config_def)
  have n: "admin_user_ids admin_config \<noteq> []"
    by (simp add: admin_config_def)
  have m: "admin_user_ids admin_config = [7, 11]"
    by (simp add: admin_config_def)
  from is_admin_empty_or_member [of open_config 8] e
  have a: "is_admin open_config 8" by simp
  from is_admin_empty_or_member [of admin_config 7] n m
  have b: "is_admin admin_config 7" by simp
  from is_admin_empty_or_member [of admin_config 8] n m
  have c: "\<not> is_admin admin_config 8" by simp
  from a b c show ?thesis by simp
qed

section \<open>Rule creation\<close>

text \<open>The chain of tests, branch by branch; the first branch cuts one character too many.\<close>

lemma derive_keyword_regex:
  "derive_keyword (''regex:'' @ rest) keyword_type = (drop 1 rest, ''regex'')"
  by (simp add: derive_keyword_def)

lemma derive_keyword_and:
  "derive_keyword (CHR ''+'' # rest) keyword_type = (rest, ''and'')"
  by (simp add: derive_keyword_def)

lemma derive_keyword_or:
  "derive_keyword (CHR ''|'' # rest) keyword_type = (rest, ''or'')"
  by (simp add: derive_keyword_def)

lemma derive_keyword_other:
  assumes "\<not> str_startswith keyword ''regex:''" and "\<not> str_startswith keyword ''+''"
    and "\<not> str_startswith keyword ''|''"
  shows "derive_keyword keyword keyword_type =
    (keyword, if str_contains keyword '' -'' then ''not'' else keyword_type)"
  using assms by (simp add: derive_keyword_def)

text \<open>
  C2. A raw input that starts with \<open>regex:\<close> should be stored with the kind \<open>regex\<close> and,
  as pattern, the rest of the input after the six characters of the prefix. The code
  cuts seven characters: on \<open>regex:foo\<close> the pattern stored is \<open>oo\<close>.
\<close>

theorem add_keyword_regex_cuts_seven:
  "derive_keyword ''regex:foo'' ''normal'' = (''oo'', ''regex'') \<and>
   (case add_keyword demo_env ''regex:foo'' None ''normal'' demo_state of
      Inl err \<Rightarrow> False
    | Inr (kw, s') \<Rightarrow>
        kw_keyword kw = ''oo'' \<and> kw_keyword_type kw = ''regex'' \<and>
        keyword_rows s' = [release_rule, kw])"
  by code_simp

section \<open>Splitting a pattern\<close>

lemma str_split_not_Nil: "str_split sep s \<noteq> []"
  by (induction sep s rule: str_split.induct) (auto split: list.splits)

lemma str_startswith_append: "str_startswith a sep \<Longrightarrow> str_startswith (a @ r) sep"
  by (induction a sep rule: str_startswith.induct) auto

lemma str_startswith_drop: "str_startswith s sep \<Longrightarrow> sep @ drop (length sep) s = s"
  by (induction s sep rule: str_startswith.induct) auto

lemma str_split_free: "\<not> str_contains s sep \<Longrightarrow> str_split sep s = [s]"
  by (induction s) auto

lemma str_join_Cons: "str_join sep ((c # p) # ps) = c # str_join sep (p # ps)"
  by (cases ps) auto

lemma str_join_split: "sep \<noteq> [] \<Longrightarrow> str_join sep (str_split sep s) = s"
proof (induction sep s rule: str_split.induct)
  case (1 sep)
  then show ?case by simp
next
  case (2 sep c cs)
  show ?case
  proof (cases "str_startswith (c # cs) sep")
    case True
    obtain q qs where q: "str_split sep (drop (length sep) (c # cs)) = q # qs"
      using str_split_not_Nil [of sep "drop (length sep) (c # cs)"] by (cases "str_split sep (drop (length sep) (c # cs))") auto
    have "str_join sep (str_split sep (drop (length sep) (c # cs))) = drop (length sep) (c # cs)"
      using 2 True by simp
    then have "str_join sep ([] # q # qs) = sep @ drop (length sep) (c # cs)"
      using q by simp
    then show ?thesis
      using True 2(3) q str_startswith_drop [OF True] by simp
  next
    case False
    obtain p ps where p: "str_split sep cs = p # ps"
      using str_split_not_Nil [of sep cs] by (cases "str_split sep cs") auto
    have "str_join sep (p # ps) = cs"
      using 2 False p by simp
    then show ?thesis
      using False p by (simp add: str_join_Cons)
  qed
qed

lemma str_split_head_prefix:
  assumes "sep \<noteq> []" and "str_split sep s = p # ps"
  shows "\<exists>r. s = p @ r"
proof -
  have "str_join sep (p # ps) = s"
    using str_join_split [OF assms(1), of s] assms(2) by simp
  then show ?thesis
    by (cases ps) auto
qed

lemma str_split_parts_free:
  "sep \<noteq> [] \<Longrightarrow> p \<in> set (str_split sep s) \<Longrightarrow> \<not> str_contains p sep"
proof (induction sep s arbitrary: p rule: str_split.induct)
  case (1 sep)
  then show ?case by simp
next
  case (2 sep c cs)
  show ?case
  proof (cases "str_startswith (c # cs) sep")
    case True
    then show ?thesis
      using 2 by auto
  next
    case False
    obtain q qs where q: "str_split sep cs = q # qs"
      using str_split_not_Nil [of sep cs] by (cases "str_split sep cs") auto
    obtain r where r: "cs = q @ r"
      using str_split_head_prefix [OF 2(3) q] by blast
    have nq: "\<not> str_contains q sep" and nqs: "\<forall>t \<in> set qs. \<not> str_contains t sep"
      using 2(2) [of q] 2(2) False 2(3) q by auto
    have "\<not> str_startswith (c # q) sep"
      using False r str_startswith_append [of "c # q" sep r] by auto
    then have "\<not> str_contains (c # q) sep"
      using nq by simp
    moreover have "p = c # q \<or> p \<in> set qs"
      using 2(4) False q by simp
    ultimately show ?thesis
      using nqs by auto
  qed
qed

lemma split_space_minus:
  "\<not> str_contains a '' -'' \<Longrightarrow> str_split '' -'' (a @ '' -'' @ r) = a # str_split '' -'' r"
proof (induction a)
  case Nil
  then show ?case by simp
next
  case (Cons c a)
  have n: "\<not> str_startswith (c # a) '' -''" and f: "\<not> str_contains a '' -''"
    using Cons.prems by auto
  have "\<not> str_startswith (c # a @ '' -'' @ r) '' -''"
    using n by (cases a) auto
  then show ?case
    using Cons.IH [OF f] by simp
qed


text \<open>
  A pattern has exactly two parts at \<open>" -"\<close> when it is two texts free of \<open>" -"\<close> joined
  by one.
\<close>

lemma two_parts_iff:
  "(\<exists>main excl. s = main @ '' -'' @ excl \<and>
       \<not> str_contains main '' -'' \<and> \<not> str_contains excl '' -'') \<longleftrightarrow>
   length (str_split '' -'' s) = 2"
proof
  assume "\<exists>main excl. s = main @ '' -'' @ excl \<and>
       \<not> str_contains main '' -'' \<and> \<not> str_contains excl '' -''"
  then obtain main excl where s: "s = main @ '' -'' @ excl"
    and m: "\<not> str_contains main '' -''" and e: "\<not> str_contains excl '' -''"
    by blast
  show "length (str_split '' -'' s) = 2"
    using s split_space_minus [OF m, of excl] str_split_free [OF e] by simp
next
  assume "length (str_split '' -'' s) = 2"
  then obtain m e where eq: "str_split '' -'' s = [m, e]"
    by (cases "str_split '' -'' s") (auto simp: length_Suc_conv)
  have "str_join '' -'' [m, e] = s"
    using str_join_split [of "'' -''" s] eq by simp
  then have "s = m @ '' -'' @ e" by simp
  moreover have "\<not> str_contains m '' -''" "\<not> str_contains e '' -''"
    using str_split_parts_free [of "'' -''" _ s] eq by simp_all
  ultimately show "\<exists>main excl. s = main @ '' -'' @ excl \<and>
       \<not> str_contains main '' -'' \<and> \<not> str_contains excl '' -''"
    by blast
qed

section \<open>Matching\<close>

lemma match_not_two_parts:
  assumes "kw_keyword_type kw = ''not''"
    and "kw_keyword kw = main @ '' -'' @ excl"
    and "\<not> str_contains main '' -''" and "\<not> str_contains excl '' -''"
  shows "match_keyword x title summary kw =
     (str_contains (str_lower (py_str title @ '' '' @ py_str summary)) (str_lower (str_strip main)) \<and>
      \<not> str_contains (str_lower (py_str title @ '' '' @ py_str summary)) (str_lower (str_strip excl)))"
proof -
  have "str_split '' -'' (kw_keyword kw) = [main, excl]"
    using assms(2) split_space_minus [OF assms(3), of excl] str_split_free [OF assms(4)] by simp
  then show ?thesis
    using assms(1) by (simp add: match_keyword_def Let_def)
qed

lemma match_not_fallback:
  assumes "kw_keyword_type kw = ''not''"
    and "\<nexists>main excl. kw_keyword kw = main @ '' -'' @ excl \<and>
           \<not> str_contains main '' -'' \<and> \<not> str_contains excl '' -''"
  shows "match_keyword x title summary kw =
     str_contains (str_lower (py_str title @ '' '' @ py_str summary)) (str_lower (kw_keyword kw))"
proof -
  have "str_split '' -'' (kw_keyword kw) \<noteq> [m, e]" for m e
  proof
    assume eq: "str_split '' -'' (kw_keyword kw) = [m, e]"
    have "str_join '' -'' [m, e] = kw_keyword kw"
      using str_join_split [of "'' -''" "kw_keyword kw"] eq by simp
    then have "kw_keyword kw = m @ '' -'' @ e" by simp
    moreover have "\<not> str_contains m '' -''" "\<not> str_contains e '' -''"
      using str_split_parts_free [of "'' -''" _ "kw_keyword kw"] eq by simp_all
    ultimately show False using assms(2) by blast
  qed
  then show ?thesis
    using assms(1) by (auto simp: match_keyword_def Let_def split: list.splits)
qed


text \<open>
  C4, as the claim states it, fails: on the pattern \<open>python -snake -game\<close> and the title
  \<open>python tutorial\<close> the code cuts the pattern into three parts and falls back to the
  containment of the whole pattern (no match), where a cut at the first \<open>" -"\<close> has the
  two non-empty parts \<open>python\<close> and \<open>snake -game\<close> (a match).
\<close>

theorem not_rule_first_cut_counterexample:
  "\<not> match_keyword demo_env (PStr ''python tutorial'') (PStr []) game_rule \<and>
   spec_match_not (PStr ''python tutorial'') (PStr []) (kw_keyword game_rule)"
  by code_simp

text \<open>
  C4, amended. For a rule of kind \<open>not\<close> the pattern is cut at every occurrence of
  \<open>" -"\<close>. When that gives exactly two parts (the pattern is two texts free of \<open>" -"\<close>
  joined by one), the rule matches iff the first part, trimmed and lowercased, is
  contained in the lowercased \<open>title summary\<close> text and the second, trimmed and
  lowercased, is not; an empty part is not treated apart. In every other case the rule
  matches iff the whole lowercased pattern is contained in the text.
\<close>

theorem not_rule_matching:
  assumes "kw_keyword_type kw = ''not''"
  shows
    "(\<forall>main excl.
        kw_keyword kw = main @ '' -'' @ excl \<and>
        \<not> str_contains main '' -'' \<and> \<not> str_contains excl '' -'' \<longrightarrow>
        match_keyword x title summary kw =
          (str_contains (str_lower (py_str title @ '' '' @ py_str summary))
             (str_lower (str_strip main)) \<and>
           \<not> str_contains (str_lower (py_str title @ '' '' @ py_str summary))
             (str_lower (str_strip excl)))) \<and>
     ((\<nexists>main excl.
         kw_keyword kw = main @ '' -'' @ excl \<and>
         \<not> str_contains main '' -'' \<and> \<not> str_contains excl '' -'') \<longrightarrow>
        match_keyword x title summary kw =
          str_contains (str_lower (py_str title @ '' '' @ py_str summary))
            (str_lower (kw_keyword kw)))"
  using match_not_two_parts [OF assms] match_not_fallback [OF assms] by blast

theorem not_rule_matching_witness:
  "match_keyword demo_env (PStr ''python tutorial'') (PStr []) snake_rule \<and>
   \<not> match_keyword demo_env (PStr ''python snake game'') (PStr []) snake_rule \<and>
   \<not> match_keyword demo_env (PStr ''python tutorial'') (PStr []) game_rule"
proof -
  have k1: "kw_keyword_type snake_rule = ''not''"
    by (simp add: snake_rule_def)
  have p1: "kw_keyword snake_rule = ''python'' @ '' -'' @ ''snake''"
    by (simp add: snake_rule_def)
  have f1: "\<not> str_contains ''python'' '' -''" "\<not> str_contains ''snake'' '' -''"
    by code_simp+
  have k2: "kw_keyword_type game_rule = ''not''"
    by (simp add: game_rule_def)
  have "length (str_split '' -'' (kw_keyword game_rule)) = 3"
    by code_simp
  then have n2: "\<nexists>main excl. kw_keyword game_rule = main @ '' -'' @ excl \<and>
      \<not> str_contains main '' -'' \<and> \<not> str_contains excl '' -''"
    using two_parts_iff [of "kw_keyword game_rule"] by simp
  have a: "match_keyword demo_env (PStr ''python tutorial'') (PStr []) snake_rule =
      (str_contains (str_lower (py_str (PStr ''python tutorial'') @ '' '' @ py_str (PStr [])))
         (str_lower (str_strip ''python'')) \<and>
       \<not> str_contains (str_lower (py_str (PStr ''python tutorial'') @ '' '' @ py_str (PStr [])))
         (str_lower (str_strip ''snake'')))"
    using not_rule_matching [OF k1, of demo_env "PStr ''python tutorial''" "PStr []"] p1 f1
    by blast
  have b: "match_keyword demo_env (PStr ''python snake game'') (PStr []) snake_rule =
      (str_contains (str_lower (py_str (PStr ''python snake game'') @ '' '' @ py_str (PStr [])))
         (str_lower (str_strip ''python'')) \<and>
       \<not> str_contains (str_lower (py_str (PStr ''python snake game'') @ '' '' @ py_str (PStr [])))
         (str_lower (str_strip ''snake'')))"
    using not_rule_matching [OF k1, of demo_env "PStr ''python snake game''" "PStr []"] p1 f1
    by blast
  have c: "match_keyword demo_env (PStr ''python tutorial'') (PStr []) game_rule =
      str_contains (str_lower (py_str (PStr ''python tutorial'') @ '' '' @ py_str (PStr [])))
        (str_lower (kw_keyword game_rule))"
    using not_rule_matching [OF k2, of demo_env "PStr ''python tutorial''" "PStr []"] n2
    by blast
  have ra: "str_contains (str_lower (py_str (PStr ''python tutorial'') @ '' '' @ py_str (PStr [])))
         (str_lower (str_strip ''python'')) \<and>
       \<not> str_contains (str_lower (py_str (PStr ''python tutorial'') @ '' '' @ py_str (PStr [])))
         (str_lower (str_strip ''snake''))"
    by code_simp
  have rb: "\<not> (str_contains (str_lower (py_str (PStr ''python snake game'') @ '' '' @ py_str (PStr [])))
         (str_lower (str_strip ''python'')) \<and>
       \<not> str_contains (str_lower (py_str (PStr ''python snake game'') @ '' '' @ py_str (PStr [])))
         (str_lower (str_strip ''snake'')))"
    by code_simp
  have rc: "\<not> str_contains (str_lower (py_str (PStr ''python tutorial'') @ '' '' @ py_str (PStr [])))
        (str_lower (kw_keyword game_rule))"
    by code_simp
  show ?thesis
    using a b c ra rb rc by blast
qed

lemma matched_keywords_append:
  "matched_keywords x title summary (a @ b) =
   matched_keywords x title summary a @ matched_keywords x title summary b"
  by (simp add: matched_keywords_def)

text \<open>
  C5. A rule of kind \<open>regex\<close> whose pattern makes the engine raise does not match, and
  the failure stays inside the matcher: the rules before and after it in the same
  evaluation are evaluated as if it were not there.
\<close>

theorem bad_regex_is_no_match:
  assumes "kw_keyword_type kw = ''regex''"
    and "re_search x (kw_keyword kw) (str_lower (py_str title @ '' '' @ py_str summary)) = Inl err"
  shows "\<not> match_keyword x title summary kw \<and>
         matched_keywords x title summary (before @ kw # after) =
         matched_keywords x title summary before @ matched_keywords x title summary after"
proof -
  have n: "\<not> match_keyword x title summary kw"
    using assms by (simp add: match_keyword_def Let_def)
  have "matched_keywords x title summary [kw] = []"
    using n by (simp add: matched_keywords_def)
  then show ?thesis
    using n matched_keywords_append [of x title summary before "[kw] @ after"]
      matched_keywords_append [of x title summary "[kw]" after]
    by simp
qed

theorem bad_regex_is_no_match_witness:
  "\<not> match_keyword demo_env (PStr ''New Release v2'') (PStr []) unclosed_rule \<and>
   matched_keywords demo_env (PStr ''New Release v2'') (PStr []) [unclosed_rule, release_rule] =
     [''release'']"
proof -
  have k: "kw_keyword_type unclosed_rule = ''regex''"
    by (simp add: unclosed_rule_def)
  have r: "re_search demo_env (kw_keyword unclosed_rule)
      (str_lower (py_str (PStr ''New Release v2'') @ '' '' @ py_str (PStr []))) = Inl ReError"
    by (simp add: unclosed_rule_def demo_env_def)
  have m: "matched_keywords demo_env (PStr ''New Release v2'') (PStr []) [release_rule] =
      [''release'']"
    by code_simp
  have e: "matched_keywords demo_env (PStr ''New Release v2'') (PStr []) [] = []"
    by (simp add: matched_keywords_def)
  show ?thesis
    using bad_regex_is_no_match [OF k r, of "[]" "[release_rule]"] m e by simp
qed

section \<open>Fetching\<close>

lemma parse_entry_keys:
  assumes "parse_entry x raw = Some e"
  shows "map_of e ''url'' = None"
    and "map_of e ''link'' = Some (PStr (entry_link raw))"
    and "map_of e ''title'' =
           Some (PStr (str_strip (case e_title raw of None \<Rightarrow> ''Untitled'' | Some t \<Rightarrow> t)))"
    and "str_strip (case e_title raw of None \<Rightarrow> ''Untitled'' | Some t \<Rightarrow> t) \<noteq> []"
  using assms by (auto simp: parse_entry_def Let_def split: if_splits sum.splits)

lemma check_entry_no_url:
  "map_of e ''url'' = None \<Longrightarrow> check_entry x fd e kws s = (None, s)"
  by (simp add: check_entry_unfold dict_get_def)

lemma check_entries_no_url:
  "\<forall>e \<in> set es. map_of e ''url'' = None \<Longrightarrow> check_entries x fd es kws s = (None, s)"
  by (induction es) (simp_all add: check_entry_no_url)

lemma map_filter_sound: "e \<in> set (List.map_filter f xs) \<Longrightarrow> \<exists>r \<in> set xs. f r = Some e"
  by (auto simp: List.map_filter_def)

lemma fetch_feed_entries:
  assumes "fetch_feed x url = Inr fi"
  shows "\<exists>rf. http_get_parse x url = HttpOk rf \<and>
           fi_entries fi = List.map_filter (parse_entry x) (take 50 (rf_entries rf))"
  using assms by (auto simp: fetch_feed_def split: http_result.splits if_splits)

lemma fetch_feed_no_url:
  assumes "fetch_feed x url = Inr fi" and "e \<in> set (fi_entries fi)"
  shows "map_of e ''url'' = None"
proof -
  obtain rf :: raw_feed
    where "fi_entries fi = List.map_filter (parse_entry x) (take 50 (rf_entries rf))"
    using fetch_feed_entries [OF assms(1)] by blast
  then obtain raw where "parse_entry x raw = Some e"
    using assms(2) map_filter_sound [of e "parse_entry x"] by auto
  then show ?thesis by (rule parse_entry_keys(1))
qed

lemma length_map_filter: "length (List.map_filter f xs) \<le> length xs"
  by (simp add: List.map_filter_def)

lemma str_startswith_prefix: "str_startswith s p = prefix p s"
  by (induction s p rule: str_startswith.induct) auto

lemma dropWhile_all_iff: "(\<forall>c \<in> set (dropWhile P s). P c) \<longleftrightarrow> dropWhile P s = []"
proof
  assume a: "\<forall>c \<in> set (dropWhile P s). P c"
  show "dropWhile P s = []"
  proof (rule ccontr)
    assume n: "dropWhile P s \<noteq> []"
    then have "\<not> P (hd (dropWhile P s))"
      by (rule hd_dropWhile)
    moreover have "hd (dropWhile P s) \<in> set (dropWhile P s)"
      using n by (rule hd_in_set)
    ultimately show False
      using a by blast
  qed
next
  assume "dropWhile P s = []"
  then show "\<forall>c \<in> set (dropWhile P s). P c"
    by (simp only: set_simps ball_empty)
qed

lemma rev_take_drop: "d = rev (dropWhile P (rev d)) @ rev (takeWhile P (rev d))"
proof -
  have "rev (takeWhile P (rev d) @ dropWhile P (rev d)) = rev (rev d)"
    by (simp only: takeWhile_dropWhile_id)
  then show ?thesis
    by (simp only: rev_append rev_rev_ident)
qed

lemma str_strip_Nil_iff: "str_strip s = [] \<longleftrightarrow> (\<forall>c \<in> set s. is_space c)"
proof -
  have "str_strip s = [] \<longleftrightarrow> (\<forall>c \<in> set (dropWhile is_space s). is_space c)"
    by (simp add: str_strip_def)
  also have "\<dots> \<longleftrightarrow> dropWhile is_space s = []"
    by (rule dropWhile_all_iff)
  also have "\<dots> \<longleftrightarrow> (\<forall>c \<in> set s. is_space c)"
    by simp
  finally show ?thesis .
qed

lemma str_strip_decomp:
  "\<exists>a b. s = a @ str_strip s @ b \<and> (\<forall>c \<in> set a. is_space c) \<and> (\<forall>c \<in> set b. is_space c)"
proof -
  let ?d = "dropWhile is_space s"
  have 1: "s = takeWhile is_space s @ ?d"
    by simp
  have 2: "?d = str_strip s @ rev (takeWhile is_space (rev ?d))"
    using rev_take_drop [of ?d is_space] by (simp only: str_strip_def)
  have "s = takeWhile is_space s @ str_strip s @ rev (takeWhile is_space (rev ?d))"
    using 1 2 by metis
  moreover have "\<forall>c \<in> set (takeWhile is_space s). is_space c"
    by (auto dest: set_takeWhileD)
  moreover have "\<forall>c \<in> set (rev (takeWhile is_space (rev ?d))). is_space c"
    by (auto dest: set_takeWhileD)
  ultimately show ?thesis
    by blast
qed

lemma str_strip_ends:
  assumes "str_strip s \<noteq> []"
  shows "\<not> is_space (hd (str_strip s)) \<and> \<not> is_space (last (str_strip s))"
proof -
  let ?d = "dropWhile is_space s"
  let ?t = "dropWhile is_space (rev ?d)"
  have t: "?t \<noteq> []"
    using assms by (simp add: str_strip_def)
  have d: "?d \<noteq> []"
  proof
    assume e: "?d = []"
    have "?t = []"
      unfolding e by simp
    then show False
      using t by blast
  qed
  have l: "\<not> is_space (hd ?t)"
    using t by (rule hd_dropWhile)
  have "last (str_strip s) = hd ?t"
    using t by (simp add: str_strip_def last_rev)
  moreover have "hd (str_strip s) = hd ?d"
  proof -
    have "?d = str_strip s @ rev (takeWhile is_space (rev ?d))"
      using rev_take_drop [of ?d is_space] by (simp only: str_strip_def)
    then show ?thesis
      using assms by (metis hd_append2)
  qed
  moreover have "\<not> is_space (hd ?d)"
    using d by (rule hd_dropWhile)
  ultimately show ?thesis
    using l by simp
qed

lemma parse_entry_kept_iff:
  "parse_entry x raw \<noteq> None \<longleftrightarrow>
     (\<exists>c \<in> set (case e_title raw of None \<Rightarrow> ''Untitled'' | Some t \<Rightarrow> t). \<not> is_space c) \<and>
     \<not> isl (clean_html x
        (case e_summary raw of
           Some sm \<Rightarrow> sm
         | None \<Rightarrow> (case e_description raw of Some d \<Rightarrow> d | None \<Rightarrow> []))) \<and>
     \<not> isl (extract_image x raw)"
  using str_strip_Nil_iff [of "case e_title raw of None \<Rightarrow> ''Untitled'' | Some t \<Rightarrow> t"]
  by (auto simp: parse_entry_def Let_def split: sum.splits)

lemma entry_link_spec:
  "entry_link raw =
     (case find (\<lambda>l. prefix ''text/html'' (case map_of l ''type'' of None \<Rightarrow> [] | Some ty \<Rightarrow> ty))
             (e_links raw) of
        None \<Rightarrow> (case e_link raw of None \<Rightarrow> [] | Some g \<Rightarrow> g)
      | Some l \<Rightarrow>
          (case map_of l ''href'' of
             None \<Rightarrow> (case e_link raw of None \<Rightarrow> [] | Some g \<Rightarrow> g)
           | Some h \<Rightarrow> if h = [] then (case e_link raw of None \<Rightarrow> [] | Some g \<Rightarrow> g) else h))"
proof -
  have "has_type ''text/html'' =
      (\<lambda>l. prefix ''text/html'' (case map_of l ''type'' of None \<Rightarrow> [] | Some ty \<Rightarrow> ty))"
    by (rule ext) (simp add: has_type_def dict_get_def str_startswith_prefix)
  then show ?thesis
    by (simp add: entry_link_def Let_def dict_get_def split: option.splits)
qed


lemma parsed_entry_spec:
  assumes "parse_entry x raw = Some e"
  shows "(\<exists>t a b.
            map_of e ''title'' = Some (PStr t) \<and> t \<noteq> [] \<and>
            (case e_title raw of None \<Rightarrow> ''Untitled'' | Some ti \<Rightarrow> ti) = a @ t @ b \<and>
            (\<forall>c \<in> set a. is_space c) \<and> (\<forall>c \<in> set b. is_space c) \<and>
            \<not> is_space (hd t) \<and> \<not> is_space (last t)) \<and>
         map_of e ''link'' =
           Some (PStr
             (case find (\<lambda>l. prefix ''text/html''
                            (case map_of l ''type'' of None \<Rightarrow> [] | Some ty \<Rightarrow> ty))
                     (e_links raw) of
                None \<Rightarrow> (case e_link raw of None \<Rightarrow> [] | Some g \<Rightarrow> g)
              | Some l \<Rightarrow>
                  (case map_of l ''href'' of
                     None \<Rightarrow> (case e_link raw of None \<Rightarrow> [] | Some g \<Rightarrow> g)
                   | Some h \<Rightarrow>
                       if h = [] then (case e_link raw of None \<Rightarrow> [] | Some g \<Rightarrow> g) else h)))"
proof -
  let ?rt = "case e_title raw of None \<Rightarrow> ''Untitled'' | Some ti \<Rightarrow> ti"
  have t: "map_of e ''title'' = Some (PStr (str_strip ?rt))" and n: "str_strip ?rt \<noteq> []"
    using parse_entry_keys(3,4) [OF assms] by simp_all
  obtain a b where "?rt = a @ str_strip ?rt @ b"
    and "\<forall>c \<in> set a. is_space c" and "\<forall>c \<in> set b. is_space c"
    using str_strip_decomp [of ?rt] by blast
  then have "\<exists>t a b.
            map_of e ''title'' = Some (PStr t) \<and> t \<noteq> [] \<and> ?rt = a @ t @ b \<and>
            (\<forall>c \<in> set a. is_space c) \<and> (\<forall>c \<in> set b. is_space c) \<and>
            \<not> is_space (hd t) \<and> \<not> is_space (last t)"
    using t n str_strip_ends [OF n] by blast
  then show ?thesis
    using parse_entry_keys(2) [OF assms] entry_link_spec [of raw] by simp
qed

text \<open>
  C8, as the claim states it, fails: an entry with a title and neither an HTML-typed
  link relation nor a generic link is not discarded; it stands in the result of a
  successful fetch with the empty link.
\<close>

theorem linkless_entry_kept_counterexample:
  "(case fetch_feed linkless_env ''http://feed'' of
      Inl msg \<Rightarrow> False
    | Inr fi \<Rightarrow>
        map (\<lambda>e. (map_of e ''title'', map_of e ''link'')) (fi_entries fi) =
          [(Some (PStr ''New Release v2''), Some (PStr []))])"
  by code_simp

text \<open>
  C8, amended. The entries of a successful fetch are, in document order, the parsed
  items of exactly those of the first 50 entries of the document whose title has a
  character that is not white space and on which the HTML library does not raise; so
  there are at most 50, and no entry is discarded for its link. The title of an item
  is the title of its entry (\<open>Untitled\<close> when absent) without the white space at its
  two ends, and is not empty. Its link is the address of the first link relation whose
  type starts with \<open>text/html\<close> when that address is present and non-empty, else the
  generic link, else the empty text.
\<close>

theorem fetch_result_entries:
  assumes "fetch_feed x url = Inr fi"
  shows "length (fi_entries fi) \<le> 50 \<and>
    (\<exists>rf.
       http_get_parse x url = HttpOk rf \<and>
       list_all2
         (\<lambda>raw e.
            (\<exists>t a b.
               map_of e ''title'' = Some (PStr t) \<and> t \<noteq> [] \<and>
               (case e_title raw of None \<Rightarrow> ''Untitled'' | Some ti \<Rightarrow> ti) = a @ t @ b \<and>
               (\<forall>c \<in> set a. is_space c) \<and> (\<forall>c \<in> set b. is_space c) \<and>
               \<not> is_space (hd t) \<and> \<not> is_space (last t)) \<and>
            map_of e ''link'' =
              Some (PStr
                (case find (\<lambda>l. prefix ''text/html''
                               (case map_of l ''type'' of None \<Rightarrow> [] | Some ty \<Rightarrow> ty))
                        (e_links raw) of
                   None \<Rightarrow> (case e_link raw of None \<Rightarrow> [] | Some g \<Rightarrow> g)
                 | Some l \<Rightarrow>
                     (case map_of l ''href'' of
                        None \<Rightarrow> (case e_link raw of None \<Rightarrow> [] | Some g \<Rightarrow> g)
                      | Some h \<Rightarrow>
                          if h = [] then (case e_link raw of None \<Rightarrow> [] | Some g \<Rightarrow> g)
                          else h))))
         (filter
            (\<lambda>raw.
               (\<exists>c \<in> set (case e_title raw of None \<Rightarrow> ''Untitled'' | Some ti \<Rightarrow> ti).
                  \<not> is_space c) \<and>
               \<not> isl (clean_html x
                  (case e_summary raw of
                     Some sm \<Rightarrow> sm
                   | None \<Rightarrow> (case e_description raw of Some d \<Rightarrow> d | None \<Rightarrow> []))) \<and>
               \<not> isl (extract_image x raw))
            (take 50 (rf_entries rf)))
         (fi_entries fi))"
proof -
  obtain rf where h: "http_get_parse x url = HttpOk rf"
    and e: "fi_entries fi = List.map_filter (parse_entry x) (take 50 (rf_entries rf))"
    using fetch_feed_entries [OF assms] by blast
  let ?kept = "filter (\<lambda>raw. parse_entry x raw \<noteq> None) (take 50 (rf_entries rf))"
  have m: "fi_entries fi = map (the \<circ> parse_entry x) ?kept"
    using e by (simp add: List.map_filter_def)
  have k: "(\<lambda>raw. parse_entry x raw \<noteq> None) =
      (\<lambda>raw.
         (\<exists>c \<in> set (case e_title raw of None \<Rightarrow> ''Untitled'' | Some ti \<Rightarrow> ti). \<not> is_space c) \<and>
         \<not> isl (clean_html x
            (case e_summary raw of
               Some sm \<Rightarrow> sm
             | None \<Rightarrow> (case e_description raw of Some d \<Rightarrow> d | None \<Rightarrow> []))) \<and>
         \<not> isl (extract_image x raw))"
    by (rule ext) (rule parse_entry_kept_iff)
  have p: "parse_entry x raw = Some ((the \<circ> parse_entry x) raw)" if "raw \<in> set ?kept" for raw
    using that by auto
  have "list_all2
         (\<lambda>raw e.
            (\<exists>t a b.
               map_of e ''title'' = Some (PStr t) \<and> t \<noteq> [] \<and>
               (case e_title raw of None \<Rightarrow> ''Untitled'' | Some ti \<Rightarrow> ti) = a @ t @ b \<and>
               (\<forall>c \<in> set a. is_space c) \<and> (\<forall>c \<in> set b. is_space c) \<and>
               \<not> is_space (hd t) \<and> \<not> is_space (last t)) \<and>
            map_of e ''link'' =
              Some (PStr
                (case find (\<lambda>l. prefix ''text/html''
                               (case map_of l ''type'' of None \<Rightarrow> [] | Some ty \<Rightarrow> ty))
                        (e_links raw) of
                   None \<Rightarrow> (case e_link raw of None \<Rightarrow> [] | Some g \<Rightarrow> g)
                 | Some l \<Rightarrow>
                     (case map_of l ''href'' of
                        None \<Rightarrow> (case e_link raw of None \<Rightarrow> [] | Some g \<Rightarrow> g)
                      | Some h \<Rightarrow>
                          if h = [] then (case e_link raw of None \<Rightarrow> [] | Some g \<Rightarrow> g)
                          else h))))
         ?kept (map (the \<circ> parse_entry x) ?kept)"
    unfolding list_all2_map2 list_all2_same
    using parsed_entry_spec [OF p] by blast
  moreover have "length (fi_entries fi) \<le> 50"
    using e length_map_filter [of "parse_entry x" "take 50 (rf_entries rf)"] by simp
  ultimately show ?thesis
    using h m k by auto
qed

theorem fetch_result_entries_witness:
  "\<exists>fi. fetch_feed linkless_env ''http://feed'' = Inr fi \<and>
     map (\<lambda>e. map_of e ''link'') (fi_entries fi) = [Some (PStr [])] \<and>
     map (\<lambda>e. map_of e ''title'') (fi_entries fi) \<noteq> [Some (PStr [])]"
proof -
  have "\<exists>fi. fetch_feed linkless_env ''http://feed'' = Inr fi"
    by (simp add: fetch_feed_def linkless_env_def demo_env_def demo_raw_feed_def)
  then obtain fi where f: "fetch_feed linkless_env ''http://feed'' = Inr fi"
    by blast
  have g: "http_get_parse linkless_env ''http://feed'' =
      HttpOk (demo_raw_feed\<lparr>rf_entries := [linkless_raw_entry]\<rparr>)"
    by (simp add: linkless_env_def)
  have kept: "filter
      (\<lambda>raw.
         (\<exists>c \<in> set (case e_title raw of None \<Rightarrow> ''Untitled'' | Some ti \<Rightarrow> ti). \<not> is_space c) \<and>
         \<not> isl (clean_html linkless_env
            (case e_summary raw of
               Some sm \<Rightarrow> sm
             | None \<Rightarrow> (case e_description raw of Some d \<Rightarrow> d | None \<Rightarrow> []))) \<and>
         \<not> isl (extract_image linkless_env raw))
      (take 50 (rf_entries (demo_raw_feed\<lparr>rf_entries := [linkless_raw_entry]\<rparr>))) =
      [linkless_raw_entry]"
    by code_simp
  have lk: "(case find (\<lambda>l. prefix ''text/html''
                               (case map_of l ''type'' of None \<Rightarrow> [] | Some ty \<Rightarrow> ty))
                        (e_links linkless_raw_entry) of
                   None \<Rightarrow> (case e_link linkless_raw_entry of None \<Rightarrow> [] | Some g \<Rightarrow> g)
                 | Some l \<Rightarrow>
                     (case map_of l ''href'' of
                        None \<Rightarrow> (case e_link linkless_raw_entry of None \<Rightarrow> [] | Some g \<Rightarrow> g)
                      | Some h \<Rightarrow>
                          if h = [] then (case e_link linkless_raw_entry of None \<Rightarrow> [] | Some g \<Rightarrow> g)
                          else h)) = []"
    by (simp add: linkless_raw_entry_def demo_raw_entry_def)
  obtain e where "fi_entries fi = [e]" and "map_of e ''link'' = Some (PStr [])"
    and "\<exists>t. map_of e ''title'' = Some (PStr t) \<and> t \<noteq> []"
    using fetch_result_entries [OF f] g kept lk
    by (auto simp: list_all2_Cons1)
  then show ?thesis
    using f by auto
qed


section \<open>Checking an item\<close>

lemma send_notification_keeps:
  "sent_items (send_notification x fd e m s) = sent_items s"
  "feeds (send_notification x fd e m s) = feeds s"
  "keyword_rows (send_notification x fd e m s) = keyword_rows s"
  "is_running (send_notification x fd e m s) = is_running s"
  "now (send_notification x fd e m s) = now s"
  "fetched (send_notification x fd e m s) = fetched s"
  by (simp_all add: send_notification_unfold Let_def)

lemma send_notification_chats:
  "map d_chat_id (deliveries (send_notification x fd e m s)) =
   map d_chat_id (deliveries s) @ admin_user_ids (cfg x)"
  by (simp add: send_notification_unfold Let_def comp_def)

text \<open>
  C6. When an item has an address, is not yet marked and at least one rule matches it,
  \<open>check_entry\<close> first attempts one send per recipient and then records the
  fingerprint, in the state the sends have left, whatever the sends did: nothing is
  assumed of the transport. The sends have been attempted even when the recording then
  fails; when it does not fail, the fingerprint is recorded. (The reading of the
  sent-items table before the matching is assumed not to fail.)
\<close>

theorem matched_item_is_marked_sent:
  assumes "dict_get entry ''url'' (PStr []) = PStr url" and "url \<noteq> []"
    and "h = sha256_hexdigest x (str_int (feed_id fd) @ '':'' @ url)"
    and "\<not> db_fault x (IsSent h)"
    and "h \<notin> set (map si_item_hash (sent_items s))"
    and "matched_keywords x (dict_get entry ''title'' (PStr []))
           (dict_get entry ''summary'' (PStr [])) kws \<noteq> []"
  shows "map d_chat_id (deliveries (snd (check_entry x fd entry kws s))) =
      map d_chat_id (deliveries s) @ admin_user_ids (cfg x) \<and>
    check_entry x fd entry kws s =
      mark_sent x (feed_id fd) (dict_get entry ''title'' (PStr [])) url
        (send_notification x fd entry
           (matched_keywords x (dict_get entry ''title'' (PStr []))
              (dict_get entry ''summary'' (PStr [])) kws) s) \<and>
    (db_fault x (MarkSent h) \<longrightarrow>
       fst (check_entry x fd entry kws s) = Some PersistenceError \<and>
       sent_items (snd (check_entry x fd entry kws s)) = sent_items s) \<and>
    (\<not> db_fault x (MarkSent h) \<longrightarrow>
       fst (check_entry x fd entry kws s) = None \<and>
       sent_items (snd (check_entry x fd entry kws s)) =
         sent_items s @
           [\<lparr>si_item_hash = h, si_feed_id = feed_id fd,
             si_title = dict_get entry ''title'' (PStr []), si_url = url,
             si_sent_at = now s\<rparr>] \<and>
       is_sent x h (snd (check_entry x fd entry kws s)) = Inr True)"
proof -
  let ?m = "matched_keywords x (dict_get entry ''title'' (PStr []))
              (dict_get entry ''summary'' (PStr [])) kws"
  let ?s1 = "send_notification x fd entry ?m s"
  have c: "check_entry x fd entry kws s =
      mark_sent x (feed_id fd) (dict_get entry ''title'' (PStr [])) url ?s1"
    using assms by (simp add: check_entry_unfold Let_def is_sent_def)
  have d: "map d_chat_id (deliveries (snd (mark_sent x (feed_id fd) t url ?s1))) =
      map d_chat_id (deliveries s) @ admin_user_ids (cfg x)" for t
    by (simp add: mark_sent_def Let_def send_notification_chats)
  have f: "db_fault x (MarkSent h) \<longrightarrow>
      fst (mark_sent x (feed_id fd) t url ?s1) = Some PersistenceError \<and>
      sent_items (snd (mark_sent x (feed_id fd) t url ?s1)) = sent_items s" for t
    using assms(3) by (simp add: mark_sent_def Let_def send_notification_keeps)
  have g: "\<not> db_fault x (MarkSent h) \<longrightarrow>
      fst (mark_sent x (feed_id fd) t url ?s1) = None \<and>
      sent_items (snd (mark_sent x (feed_id fd) t url ?s1)) =
         sent_items s @
           [\<lparr>si_item_hash = h, si_feed_id = feed_id fd, si_title = t, si_url = url,
             si_sent_at = now s\<rparr>] \<and>
      is_sent x h (snd (mark_sent x (feed_id fd) t url ?s1)) = Inr True" for t
    using assms(3,4,5) by (simp add: mark_sent_def Let_def is_sent_def send_notification_keeps)
  show ?thesis
    using c d f g by simp
qed

theorem matched_item_is_marked_sent_witness:
  "is_sent failing_env ''1:u1''
     (snd (check_entry failing_env demo_feed demo_item [release_rule] demo_state)) = Inr True \<and>
   map d_ok (deliveries (snd (check_entry failing_env demo_feed demo_item [release_rule] demo_state)))
     = [False] \<and>
   fst (check_entry mark_fault_env demo_feed demo_item [release_rule] demo_state) =
     Some PersistenceError \<and>
   map d_chat_id
     (deliveries (snd (check_entry mark_fault_env demo_feed demo_item [release_rule] demo_state)))
     = [7] \<and>
   sent_items (snd (check_entry mark_fault_env demo_feed demo_item [release_rule] demo_state)) = []"
proof -
  have u: "dict_get demo_item ''url'' (PStr []) = PStr ''u1''"
    by code_simp
  have h: "''1:u1'' = sha256_hexdigest failing_env (str_int (feed_id demo_feed) @ '':'' @ ''u1'')"
    "''1:u1'' = sha256_hexdigest mark_fault_env (str_int (feed_id demo_feed) @ '':'' @ ''u1'')"
    by code_simp+
  have f: "\<not> db_fault failing_env (IsSent ''1:u1'')" "\<not> db_fault failing_env (MarkSent ''1:u1'')"
    "\<not> db_fault mark_fault_env (IsSent ''1:u1'')" "db_fault mark_fault_env (MarkSent ''1:u1'')"
    by (simp_all add: mark_fault_env_def failing_env_def demo_env_def)
  have n: "''1:u1'' \<notin> set (map si_item_hash (sent_items demo_state))"
    by (simp add: demo_state_def)
  have m: "matched_keywords failing_env (dict_get demo_item ''title'' (PStr []))
      (dict_get demo_item ''summary'' (PStr [])) [release_rule] \<noteq> []"
    "matched_keywords mark_fault_env (dict_get demo_item ''title'' (PStr []))
      (dict_get demo_item ''summary'' (PStr [])) [release_rule] \<noteq> []"
    by code_simp+
  have d: "map d_ok (deliveries (snd (check_entry failing_env demo_feed demo_item [release_rule] demo_state)))
     = [False]"
    by code_simp
  have v: "deliveries demo_state = []" "sent_items demo_state = []"
    "admin_user_ids (cfg mark_fault_env) = [7]"
    by (simp_all add: demo_state_def mark_fault_env_def failing_env_def demo_env_def)
  have a: "is_sent failing_env ''1:u1''
     (snd (check_entry failing_env demo_feed demo_item [release_rule] demo_state)) = Inr True"
    using matched_item_is_marked_sent [OF u _ h(1) f(1) n m(1)] f(2) by blast
  have "fst (check_entry mark_fault_env demo_feed demo_item [release_rule] demo_state) =
      Some PersistenceError \<and>
    map d_chat_id
      (deliveries (snd (check_entry mark_fault_env demo_feed demo_item [release_rule] demo_state)))
      = map d_chat_id (deliveries demo_state) @ admin_user_ids (cfg mark_fault_env) \<and>
    sent_items (snd (check_entry mark_fault_env demo_feed demo_item [release_rule] demo_state)) =
      sent_items demo_state"
    using matched_item_is_marked_sent [OF u _ h(2) f(3) n m(2)] f(4) by blast
  then have b: "fst (check_entry mark_fault_env demo_feed demo_item [release_rule] demo_state) =
      Some PersistenceError \<and>
    map d_chat_id
      (deliveries (snd (check_entry mark_fault_env demo_feed demo_item [release_rule] demo_state)))
      = [7] \<and>
    sent_items (snd (check_entry mark_fault_env demo_feed demo_item [release_rule] demo_state)) = []"
    using v by simp
  show ?thesis
    using a b d by blast
qed

lemma check_entry_already_sent:
  assumes "dict_get entry ''url'' (PStr []) = PStr url"
    and "\<not> db_fault x (IsSent (sha256_hexdigest x (str_int (feed_id fd) @ '':'' @ url)))"
    and "sha256_hexdigest x (str_int (feed_id fd) @ '':'' @ url) \<in> set (map si_item_hash (sent_items s))"
  shows "check_entry x fd entry kws s = (None, s)"
  using assms by (simp add: check_entry_unfold Let_def is_sent_def)

lemma count_hash_zero:
  fixes rows :: "sent_item list"
  shows "h \<notin> set (map si_item_hash rows) \<Longrightarrow> filter (\<lambda>i. si_item_hash i = h) rows = []"
  by (induction rows) auto

lemma count_hash_one:
  fixes rows :: "sent_item list"
  shows "distinct (map si_item_hash rows) \<Longrightarrow> h \<in> set (map si_item_hash rows) \<Longrightarrow>
    length (filter (\<lambda>i. si_item_hash i = h) rows) = 1"
  by (induction rows) (auto simp: count_hash_zero)

lemma mark_sent_count:
  assumes "\<not> db_fault x (MarkSent (sha256_hexdigest x (str_int fid @ '':'' @ url)))"
    and "distinct (map si_item_hash (sent_items s))"
  shows "length (filter (\<lambda>i. si_item_hash i = sha256_hexdigest x (str_int fid @ '':'' @ url))
            (sent_items (snd (mark_sent x fid title url s)))) = 1 \<and>
         distinct (map si_item_hash (sent_items (snd (mark_sent x fid title url s))))"
proof (cases "sha256_hexdigest x (str_int fid @ '':'' @ url) \<in> set (map si_item_hash (sent_items s))")
  case True
  then show ?thesis
    using assms count_hash_one [OF assms(2) True] by (simp add: mark_sent_def Let_def)
next
  case False
  then show ?thesis
    using assms count_hash_zero [OF False] by (simp add: mark_sent_def Let_def)
qed

text \<open>
  C7. After two calls of \<open>mark_sent\<close> with the same feed id and address the table holds
  exactly one record with that fingerprint (the second call is refused by the unique
  column), and a check of an item with that fingerprint then changes nothing: no send
  is attempted.
\<close>

theorem mark_sent_twice_one_record:
  assumes "h = sha256_hexdigest x (str_int fid @ '':'' @ url)"
    and "\<not> db_fault x (MarkSent h)"
    and "distinct (map si_item_hash (sent_items s))"
    and "s2 = snd (mark_sent x fid title' url (snd (mark_sent x fid title url s)))"
  shows "length (filter (\<lambda>i. si_item_hash i = h) (sent_items s2)) = 1 \<and>
    (\<forall>fd entry kws.
       feed_id fd = fid \<and> dict_get entry ''url'' (PStr []) = PStr url \<and>
       \<not> db_fault x (IsSent h) \<longrightarrow>
       check_entry x fd entry kws s2 = (None, s2))"
proof -
  let ?s1 = "snd (mark_sent x fid title url s)"
  have one: "length (filter (\<lambda>i. si_item_hash i = h) (sent_items ?s1)) = 1"
    and d1: "distinct (map si_item_hash (sent_items ?s1))"
    using mark_sent_count [of x fid url s title] assms(1-3) by simp_all
  have two: "length (filter (\<lambda>i. si_item_hash i = h) (sent_items s2)) = 1"
    using mark_sent_count [of x fid url ?s1 title'] assms(1,2,4) d1 by simp
  then have "filter (\<lambda>i. si_item_hash i = h) (sent_items s2) \<noteq> []"
    by auto
  then have "h \<in> set (map si_item_hash (sent_items s2))"
    by (auto simp: filter_empty_conv)
  then show ?thesis
    using two assms(1) check_entry_already_sent [of _ url x _ s2] by auto
qed

theorem mark_sent_twice_one_record_witness:
  "length (filter (\<lambda>i. si_item_hash i = ''1:u1'')
     (sent_items (snd (mark_sent demo_env 1 (PStr ''again'') ''u1''
        (snd (mark_sent demo_env 1 (PStr ''New Release v2'') ''u1'' demo_state)))))) = 1 \<and>
   deliveries (snd (check_entry demo_env demo_feed demo_item [release_rule]
     (snd (mark_sent demo_env 1 (PStr ''again'') ''u1''
        (snd (mark_sent demo_env 1 (PStr ''New Release v2'') ''u1'' demo_state)))))) = []"
proof -
  define s2 where "s2 = snd (mark_sent demo_env 1 (PStr ''again'') ''u1''
        (snd (mark_sent demo_env 1 (PStr ''New Release v2'') ''u1'' demo_state)))"
  have h: "''1:u1'' = sha256_hexdigest demo_env (str_int 1 @ '':'' @ ''u1'')"
    by code_simp
  have f: "\<not> db_fault demo_env (MarkSent ''1:u1'')" "\<not> db_fault demo_env (IsSent ''1:u1'')"
    by (simp_all add: demo_env_def)
  have d: "distinct (map si_item_hash (sent_items demo_state))"
    by (simp add: demo_state_def)
  have i: "feed_id demo_feed = 1" "dict_get demo_item ''url'' (PStr []) = PStr ''u1''"
    by code_simp+
  have k: "deliveries s2 = []"
    unfolding s2_def by code_simp
  have "length (filter (\<lambda>i. si_item_hash i = ''1:u1'') (sent_items s2)) = 1 \<and>
    check_entry demo_env demo_feed demo_item [release_rule] s2 = (None, s2)"
    using mark_sent_twice_one_record [OF h f(1) d s2_def] i f(2) by blast
  then show ?thesis
    using k unfolding s2_def by simp
qed

section \<open>The sweep\<close>

text \<open>
  C1. The claim expects one notification and one dedup record from the sweep over the
  feed with the rule \<open>release\<close> and the new entry \<open>New Release v2\<close> at \<open>u1\<close>. The code
  fetches the feed and parses the entry, but sends nothing and records nothing:
  \<open>_parse_entry\<close> stores the address under the key \<open>link\<close>, and \<open>check_entry\<close> reads the
  key \<open>url\<close>, finds it empty and returns.
\<close>

theorem release_sweep_sends_nothing:
  "(case fetch_feed demo_env ''http://feed'' of
      Inl msg \<Rightarrow> False
    | Inr fi \<Rightarrow> map (\<lambda>e. (map_of e ''title'', map_of e ''link'', map_of e ''url'')) (fi_entries fi) =
        [(Some (PStr ''New Release v2''), Some (PStr ''u1''), None)]) \<and>
   fetched (snd (check_all_feeds demo_env demo_state)) = [''http://feed''] \<and>
   deliveries (snd (check_all_feeds demo_env demo_state)) = [] \<and>
   sent_items (snd (check_all_feeds demo_env demo_state)) = []"
  by code_simp


text \<open>
  Beyond the example: no item of a fetch result carries the key \<open>url\<close>, so no check of a
  feed and no sweep ever sends or records anything.
\<close>

lemma silent_check_feed_body:
  "deliveries (snd (check_feed_body x fd gk s)) = deliveries s \<and>
   sent_items (snd (check_feed_body x fd gk s)) = sent_items s"
proof -
  have ce: "check_entries x fd (fi_entries fi) kws s2 = (None, s2)"
    if "fetch_feed x (feed_url fd) = Inr fi" for fi kws s2
    using fetch_feed_no_url [OF that] by (simp add: check_entries_no_url)
  show ?thesis
    using ce
    by (auto simp: check_feed_body_unfold Let_def increment_error_def update_feed_def
        split: sum.splits)
qed

lemma silent_check_feed:
  "deliveries (snd (check_feed x fd gk s)) = deliveries s \<and>
   sent_items (snd (check_feed x fd gk s)) = sent_items s"
proof -
  obtain r s' where r: "check_feed_body x fd gk s = (r, s')"
    by (cases "check_feed_body x fd gk s")
  then show ?thesis
    using silent_check_feed_body [of x fd gk s]
    by (cases r) (simp_all add: check_feed_unfold increment_error_def)
qed

lemma silent_check_feeds:
  "deliveries (snd (check_feeds x fds gk s)) = deliveries s \<and>
   sent_items (snd (check_feeds x fds gk s)) = sent_items s"
proof (induction fds arbitrary: s)
  case Nil
  show ?case by simp
next
  case (Cons fd fds)
  obtain r s' where r: "check_feed x fd gk s = (r, s')"
    by (cases "check_feed x fd gk s")
  then show ?case
    using silent_check_feed [of x fd gk s] Cons.IH [of s'] by (cases r) simp_all
qed

lemma sweep_never_delivers: "deliveries (snd (check_all_feeds x s)) = deliveries s"
proof -
  have "deliveries (snd (sweep_body x t)) = deliveries t" for t
    using silent_check_feeds by (auto simp: sweep_body_unfold split: sum.splits)
  then show ?thesis
    by (simp add: check_all_feeds_unfold clean_old_sent_items_def Let_def)
qed

section \<open>Steps of the sweep\<close>

lemma find_update_first:
  "(\<And>r. p r \<Longrightarrow> p (f r)) \<Longrightarrow> find p (update_first p f rows) = map_option f (find p rows)"
  by (induction rows) auto

lemma stays_off_refl: "stays_off r r"
  by (simp add: stays_off_def)

lemma stays_off_rows_refl: "list_all2 stays_off rows rows"
  by (simp add: list_all2_refl stays_off_refl)

lemma stays_off_rows_trans:
  "list_all2 stays_off a b \<Longrightarrow> list_all2 stays_off b c \<Longrightarrow> list_all2 stays_off a c"
  using list_all2_trans [of stays_off stays_off stays_off a b c]
  by (auto simp: stays_off_def)

lemma stays_off_update_first:
  "(\<And>r. stays_off r (f r)) \<Longrightarrow> list_all2 stays_off rows (update_first p f rows)"
  by (induction rows) (auto simp: stays_off_rows_refl stays_off_refl)

lemma stays_off_bump_error: "stays_off r (bump_error r)"
  by (simp add: stays_off_def bump_error_def Let_def)

lemma quiet_step_refl: "quiet_step s s"
  by (simp add: quiet_step_def stays_off_rows_refl)

lemma quiet_step_trans: "quiet_step a b \<Longrightarrow> quiet_step b c \<Longrightarrow> quiet_step a c"
  by (auto simp: quiet_step_def intro: stays_off_rows_trans)

lemma quiet_increment_error: "quiet_step s (snd (increment_error x fid s))"
  by (simp add: increment_error_def quiet_step_def stays_off_rows_refl
      stays_off_update_first stays_off_bump_error)

lemma quiet_update_feed: "quiet_step s (snd (update_feed x fid t d lf ec s))"
  by (simp add: update_feed_def quiet_step_def stays_off_rows_refl stays_off_update_first
      stays_off_def)

lemma quiet_send_notification: "quiet_step s (send_notification x fd e m s)"
  by (simp add: send_notification_unfold Let_def quiet_step_def stays_off_rows_refl)

lemma quiet_mark_sent: "quiet_step s (snd (mark_sent x fid t u s))"
  by (simp add: mark_sent_def Let_def quiet_step_def stays_off_rows_refl)

lemma quiet_check_entry: "quiet_step s (snd (check_entry x fd e kws s))"
  using quiet_step_trans [OF quiet_send_notification quiet_mark_sent]
  by (auto simp: check_entry_unfold Let_def quiet_step_refl split: sum.splits bool.splits)

lemma quiet_check_entries: "quiet_step s (snd (check_entries x fd es kws s))"
proof (induction es arbitrary: s)
  case Nil
  show ?case by (simp add: quiet_step_refl)
next
  case (Cons e es)
  obtain r s' where r: "check_entry x fd e kws s = (r, s')"
    by (cases "check_entry x fd e kws s")
  have q: "quiet_step s s'"
    using quiet_check_entry [of s x fd e kws] r by simp
  show ?case
  proof (cases r)
    case None
    then show ?thesis
      using r q Cons.IH [of s'] by (auto intro: quiet_step_trans)
  next
    case (Some err)
    then show ?thesis
      using r q by simp
  qed
qed


lemma quiet_fetched: "quiet_step s (s\<lparr>fetched := f\<rparr>)"
  by (simp add: quiet_step_def stays_off_rows_refl)

lemma quiet_check_feed_body: "quiet_step s (snd (check_feed_body x fd gk s))"
proof -
  let ?s1 = "s\<lparr>fetched := fetched s @ [feed_url fd]\<rparr>"
  have a: "quiet_step s (snd (increment_error x (feed_id fd) ?s1))"
    using quiet_step_trans [OF quiet_fetched quiet_increment_error] .
  have b: "quiet_step s (snd (update_feed x (feed_id fd) t d lf ec ?s1))" for t d lf ec
    using quiet_step_trans [OF quiet_fetched quiet_update_feed] .
  have b2: "quiet_step s s2"
    if "update_feed x (feed_id fd) t d lf ec ?s1 = (r, s2)" for t d lf ec r s2
    using b [of t d lf ec] that by simp
  have c: "quiet_step s (snd (check_entries x fd es kws s2))"
    if "update_feed x (feed_id fd) t d lf ec ?s1 = (r, s2)" for t d lf ec r s2 es kws
  proof -
    have "quiet_step s s2"
      using b [of t d lf ec] that by simp
    then show ?thesis
      using quiet_check_entries [of s2 x fd es kws] by (rule quiet_step_trans)
  qed
  show ?thesis
    using a b2 c
    by (auto simp: check_feed_body_unfold Let_def quiet_step_refl
        split: sum.splits prod.splits option.splits)
qed

lemma quiet_check_feed: "quiet_step s (snd (check_feed x fd gk s))"
proof -
  obtain r s' where r: "check_feed_body x fd gk s = (r, s')"
    by (cases "check_feed_body x fd gk s")
  have q: "quiet_step s s'"
    using quiet_check_feed_body [of s x fd gk] r by simp
  show ?thesis
    using r q quiet_step_trans [OF q quiet_increment_error]
    by (cases r) (simp_all add: check_feed_unfold)
qed

lemma quiet_check_feeds: "quiet_step s (snd (check_feeds x fds gk s))"
proof (induction fds arbitrary: s)
  case Nil
  show ?case by (simp add: quiet_step_refl)
next
  case (Cons fd fds)
  obtain r s' where r: "check_feed x fd gk s = (r, s')"
    by (cases "check_feed x fd gk s")
  have q: "quiet_step s s'"
    using quiet_check_feed [of s x fd gk] r by simp
  show ?case
  proof (cases r)
    case None
    then show ?thesis
      using r q Cons.IH [of s'] by (auto intro: quiet_step_trans)
  next
    case (Some err)
    then show ?thesis
      using r q by simp
  qed
qed

lemma quiet_sweep_body: "quiet_step s (snd (sweep_body x s))"
  using quiet_check_feeds
  by (auto simp: sweep_body_unfold quiet_step_refl split: sum.splits)

lemma check_all_feeds_running: "is_running s \<Longrightarrow> check_all_feeds x s = (None, s)"
  by (simp add: check_all_feeds_unfold)

lemma check_all_feeds_clears: "\<not> is_running s \<Longrightarrow> \<not> is_running (snd (check_all_feeds x s))"
  by (simp add: check_all_feeds_unfold clean_old_sent_items_def Let_def)

lemma check_all_feeds_stays_off:
  "list_all2 stays_off (feeds s) (feeds (snd (check_all_feeds x s)))"
proof (cases "is_running s")
  case True
  then show ?thesis
    by (simp add: check_all_feeds_unfold stays_off_rows_refl)
next
  case False
  have "quiet_step (s\<lparr>is_running := True\<rparr>) (snd (sweep_body x (s\<lparr>is_running := True\<rparr>)))"
    by (rule quiet_sweep_body)
  then have "list_all2 stays_off (feeds s) (feeds (snd (sweep_body x (s\<lparr>is_running := True\<rparr>))))"
    by (simp add: quiet_step_def)
  then show ?thesis
    using False by (simp add: check_all_feeds_unfold clean_old_sent_items_def Let_def)
qed

section \<open>Error count and disabling\<close>

lemma bump_error_iter:
  "feed_id ((bump_error ^^ n) r) = feed_id r \<and>
   feed_error_count ((bump_error ^^ n) r) = feed_error_count r + int n \<and>
   feed_is_active ((bump_error ^^ n) r) =
     (feed_is_active r \<and> (n = 0 \<or> feed_error_count r + int n < 10))"
  by (induction n) (auto simp: bump_error_def Let_def)

lemma check_feed_fetch_failure:
  assumes "\<not> db_fault x (GetFeedKeywords (feed_id fd))"
    and "\<not> db_fault x (IncrementError (feed_id fd))"
    and "gk @ filter (\<lambda>k. kw_feed_id k = Some (feed_id fd)) (keyword_rows s) \<noteq> []"
    and "fetch_feed x (feed_url fd) = Inl msg"
  shows "check_feed x fd gk s =
    (None, s\<lparr>fetched := fetched s @ [feed_url fd],
              feeds := update_first (\<lambda>f. feed_id f = feed_id fd) bump_error (feeds s)\<rparr>)"
  using assms
  by (auto simp: check_feed_unfold check_feed_body_unfold get_feed_keywords_def increment_error_def
      Let_def)

lemma bump_error_id: "feed_id (bump_error r) = feed_id r"
  by (simp add: bump_error_def Let_def)

lemma failures_iter:
  assumes "\<not> db_fault x (GetFeedKeywords (feed_id fd))"
    and "\<not> db_fault x (IncrementError (feed_id fd))"
    and "gk @ filter (\<lambda>k. kw_feed_id k = Some (feed_id fd)) (keyword_rows s) \<noteq> []"
    and "fetch_feed x (feed_url fd) = Inl msg"
  shows "keyword_rows (((\<lambda>t. snd (check_feed x fd gk t)) ^^ n) s) = keyword_rows s \<and>
    find (\<lambda>r. feed_id r = feed_id fd) (feeds (((\<lambda>t. snd (check_feed x fd gk t)) ^^ n) s)) =
      map_option (bump_error ^^ n) (find (\<lambda>r. feed_id r = feed_id fd) (feeds s))"
proof (induction n)
  case 0
  show ?case by (simp add: option.map_ident)
next
  case (Suc n)
  let ?t = "((\<lambda>t. snd (check_feed x fd gk t)) ^^ n) s"
  have k: "gk @ filter (\<lambda>k. kw_feed_id k = Some (feed_id fd)) (keyword_rows ?t) \<noteq> []"
    using Suc assms(3) by simp
  have step: "snd (check_feed x fd gk ?t) =
      ?t\<lparr>fetched := fetched ?t @ [feed_url fd],
          feeds := update_first (\<lambda>f. feed_id f = feed_id fd) bump_error (feeds ?t)\<rparr>"
    using check_feed_fetch_failure [OF assms(1,2) k assms(4)] by simp
  have "find (\<lambda>r. feed_id r = feed_id fd)
          (update_first (\<lambda>f. feed_id f = feed_id fd) bump_error (feeds ?t)) =
        map_option bump_error (find (\<lambda>r. feed_id r = feed_id fd) (feeds ?t))"
    by (rule find_update_first) (simp add: bump_error_id)
  then show ?case
    using Suc step by (simp add: option.map_comp comp_def)
qed

lemma check_entry_no_fault:
  assumes "\<forall>c. \<not> db_fault x c"
  shows "fst (check_entry x fd e kws s) = None \<and> feeds (snd (check_entry x fd e kws s)) = feeds s"
  using assms
  by (auto simp: check_entry_unfold Let_def is_sent_def mark_sent_def send_notification_unfold
      split: bool.splits)

lemma check_entries_no_fault:
  assumes "\<forall>c. \<not> db_fault x c"
  shows "fst (check_entries x fd es kws s) = None \<and>
         feeds (snd (check_entries x fd es kws s)) = feeds s"
proof (induction es arbitrary: s)
  case Nil
  show ?case by simp
next
  case (Cons e es)
  obtain r s' where r: "check_entry x fd e kws s = (r, s')"
    by (cases "check_entry x fd e kws s")
  have "r = None" and "feeds s' = feeds s"
    using check_entry_no_fault [OF assms, of fd e kws s] r by simp_all
  then show ?case
    using r Cons.IH [of s'] by simp
qed

lemma check_feed_fetch_success:
  assumes "\<forall>c. \<not> db_fault x c"
    and "gk @ filter (\<lambda>k. kw_feed_id k = Some (feed_id fd)) (keyword_rows s) \<noteq> []"
    and "fetch_feed x (feed_url fd) = Inr fi"
  shows "fst (check_feed x fd gk s) = None \<and>
    feeds (snd (check_feed x fd gk s)) =
      update_first (\<lambda>f. feed_id f = feed_id fd)
        (\<lambda>f. f\<lparr>feed_title := Some (fi_title fi), feed_description := Some (fi_description fi),
                feed_last_fetch := Some (now s), feed_error_count := 0\<rparr>)
        (feeds s)"
proof -
  let ?s2 = "s\<lparr>fetched := fetched s @ [feed_url fd],
      feeds := update_first (\<lambda>f. feed_id f = feed_id fd)
        (\<lambda>f. f\<lparr>feed_title := Some (fi_title fi), feed_description := Some (fi_description fi),
                feed_last_fetch := Some (now s), feed_error_count := 0\<rparr>)
        (feeds s)\<rparr>"
  let ?kws = "gk @ filter (\<lambda>k. kw_feed_id k = Some (feed_id fd)) (keyword_rows s)"
  have body: "check_feed_body x fd gk s = check_entries x fd (fi_entries fi) ?kws ?s2"
    using assms
    by (auto simp: check_feed_body_unfold get_feed_keywords_def update_feed_def Let_def)
  obtain r s' where r: "check_entries x fd (fi_entries fi) ?kws ?s2 = (r, s')"
    by (cases "check_entries x fd (fi_entries fi) ?kws ?s2")
  have "r = None" and "feeds s' = feeds ?s2"
    using check_entries_no_fault [OF assms(1), of fd "fi_entries fi" ?kws ?s2] r by simp_all
  then show ?thesis
    using body r by (simp add: check_feed_unfold)
qed


text \<open>
  C3. For a feed with a row in the table and at least one applicable rule, with the
  database calls not failing: after \<open>n\<close> checks whose fetch fails the error count is
  \<open>n\<close> higher, and the feed is active iff it was and the count has stayed below 10 (so 9
  failures from 0 leave it active and the 10th disables it); a check whose fetch
  succeeds sets the count to 0 and leaves the active flag as it was. No check of a feed
  and no sweep turns an inactive feed active, under any behaviour of the libraries and
  the database.
\<close>

theorem error_count_policy:
  assumes "\<forall>c. \<not> db_fault x c"
    and "find (\<lambda>r. feed_id r = feed_id fd) (feeds s) = Some r"
    and "gk @ filter (\<lambda>k. kw_feed_id k = Some (feed_id fd)) (keyword_rows s) \<noteq> []"
  shows
    "(fetch_feed x (feed_url fd) = Inl msg \<longrightarrow>
        (\<exists>r'. find (\<lambda>r. feed_id r = feed_id fd)
                 (feeds (((\<lambda>t. snd (check_feed x fd gk t)) ^^ n) s)) = Some r' \<and>
              feed_error_count r' = feed_error_count r + int n \<and>
              feed_is_active r' =
                (feed_is_active r \<and> (n = 0 \<or> feed_error_count r + int n < 10)))) \<and>
     (fetch_feed x (feed_url fd) = Inr fi \<longrightarrow>
        (\<exists>r'. find (\<lambda>r. feed_id r = feed_id fd) (feeds (snd (check_feed x fd gk s))) = Some r' \<and>
              feed_error_count r' = 0 \<and>
              feed_is_active r' = feed_is_active r)) \<and>
     list_all2 stays_off (feeds s) (feeds (snd (check_feed x fd gk s))) \<and>
     list_all2 stays_off (feeds s) (feeds (snd (check_all_feeds x s)))"
proof -
  have a: "\<exists>r'. find (\<lambda>r. feed_id r = feed_id fd)
                 (feeds (((\<lambda>t. snd (check_feed x fd gk t)) ^^ n) s)) = Some r' \<and>
              feed_error_count r' = feed_error_count r + int n \<and>
              feed_is_active r' =
                (feed_is_active r \<and> (n = 0 \<or> feed_error_count r + int n < 10))"
    if f: "fetch_feed x (feed_url fd) = Inl msg"
  proof -
    have "find (\<lambda>r. feed_id r = feed_id fd)
            (feeds (((\<lambda>t. snd (check_feed x fd gk t)) ^^ n) s)) = Some ((bump_error ^^ n) r)"
      using failures_iter [OF _ _ assms(3) f, of n] assms(1,2) by simp
    then show ?thesis
      using bump_error_iter [of n r] by simp
  qed
  have b: "\<exists>r'. find (\<lambda>r. feed_id r = feed_id fd) (feeds (snd (check_feed x fd gk s))) = Some r' \<and>
              feed_error_count r' = 0 \<and> feed_is_active r' = feed_is_active r"
    if f: "fetch_feed x (feed_url fd) = Inr fi"
  proof -
    let ?u = "\<lambda>f. f\<lparr>feed_title := Some (fi_title fi), feed_description := Some (fi_description fi),
                feed_last_fetch := Some (now s), feed_error_count := 0\<rparr>"
    have "feeds (snd (check_feed x fd gk s)) =
        update_first (\<lambda>f. feed_id f = feed_id fd) ?u (feeds s)"
      using check_feed_fetch_success [OF assms(1,3) f] by simp
    moreover have "find (\<lambda>r. feed_id r = feed_id fd)
          (update_first (\<lambda>f. feed_id f = feed_id fd) ?u (feeds s)) =
        map_option ?u (find (\<lambda>r. feed_id r = feed_id fd) (feeds s))"
      by (rule find_update_first) simp
    ultimately show ?thesis
      using assms(2) by simp
  qed
  have c: "list_all2 stays_off (feeds s) (feeds (snd (check_feed x fd gk s)))"
    using quiet_check_feed [of s x fd gk] by (simp add: quiet_step_def)
  show ?thesis
    using a b c check_all_feeds_stays_off [of s x] by blast
qed

theorem error_count_policy_witness:
  "(\<exists>r'. find (\<lambda>r. feed_id r = feed_id demo_feed)
           (feeds (((\<lambda>t. snd (check_feed down_env demo_feed [release_rule] t)) ^^ 9) demo_state))
         = Some r' \<and> feed_error_count r' = 9 \<and> feed_is_active r') \<and>
   (\<exists>r'. find (\<lambda>r. feed_id r = feed_id demo_feed)
           (feeds (((\<lambda>t. snd (check_feed down_env demo_feed [release_rule] t)) ^^ 10) demo_state))
         = Some r' \<and> feed_error_count r' = 10 \<and> \<not> feed_is_active r') \<and>
   (\<exists>r'. find (\<lambda>r. feed_id r = feed_id demo_feed)
           (feeds (snd (check_feed demo_env demo_feed [release_rule] disabled_state)))
         = Some r' \<and> feed_error_count r' = 0 \<and> \<not> feed_is_active r')"
proof -
  have nf: "\<forall>c. \<not> db_fault down_env c" "\<forall>c. \<not> db_fault demo_env c"
    by (simp_all add: down_env_def demo_env_def)
  have row: "find (\<lambda>r. feed_id r = feed_id demo_feed) (feeds demo_state) = Some demo_feed"
    by (simp add: demo_state_def)
  have row': "find (\<lambda>r. feed_id r = feed_id demo_feed) (feeds disabled_state) =
      Some (demo_feed\<lparr>feed_is_active := False, feed_error_count := 10\<rparr>)"
    by (simp add: disabled_state_def)
  have k: "[release_rule] @
      filter (\<lambda>k. kw_feed_id k = Some (feed_id demo_feed)) (keyword_rows demo_state) \<noteq> []"
    "[release_rule] @
      filter (\<lambda>k. kw_feed_id k = Some (feed_id demo_feed)) (keyword_rows disabled_state) \<noteq> []"
    by simp_all
  have down: "fetch_feed down_env (feed_url demo_feed) = Inl ''Request timeout''"
    by (simp add: fetch_feed_def down_env_def)
  have up: "\<exists>fi. fetch_feed demo_env (feed_url demo_feed) = Inr fi"
    by (simp add: fetch_feed_def demo_env_def demo_feed_def demo_raw_feed_def)
  then obtain fi where up': "fetch_feed demo_env (feed_url demo_feed) = Inr fi"
    by blast
  have v: "feed_error_count demo_feed = 0" "feed_is_active demo_feed"
    by (simp_all add: demo_feed_def)
  have a: "\<exists>r'. find (\<lambda>r. feed_id r = feed_id demo_feed)
           (feeds (((\<lambda>t. snd (check_feed down_env demo_feed [release_rule] t)) ^^ 9) demo_state))
         = Some r' \<and> feed_error_count r' = 9 \<and> feed_is_active r'"
    using error_count_policy [OF nf(1) row k(1), of "''Request timeout''" 9] down v by simp
  have b: "\<exists>r'. find (\<lambda>r. feed_id r = feed_id demo_feed)
           (feeds (((\<lambda>t. snd (check_feed down_env demo_feed [release_rule] t)) ^^ 10) demo_state))
         = Some r' \<and> feed_error_count r' = 10 \<and> \<not> feed_is_active r'"
    using error_count_policy [OF nf(1) row k(1), of "''Request timeout''" 10] down v by simp
  have c: "\<exists>r'. find (\<lambda>r. feed_id r = feed_id demo_feed)
           (feeds (snd (check_feed demo_env demo_feed [release_rule] disabled_state)))
         = Some r' \<and> feed_error_count r' = 0 \<and> \<not> feed_is_active r'"
    using error_count_policy [OF nf(2) row' k(2), of _ _ fi] up' by simp
  show ?thesis
    using a b c by blast
qed

section \<open>The guard of the sweep\<close>

text \<open>
  Another task that leaves every state with the guard set as it is does not change a
  coroutine that runs with the guard set.
\<close>

lemma triggers_running: "is_running t \<Longrightarrow> triggers n x t = t"
  by (cases n) (simp_all add: check_all_feeds_async_def)

lemma send_notification_async_alone:
  assumes "\<And>t. is_running t \<Longrightarrow> others t = t" and "is_running s"
  shows "send_notification_async others x fd e m s = send_notification x fd e m s"
proof -
  have "foldl (\<lambda>t a. others (t\<lparr>deliveries := deliveries t @ [d a]\<rparr>)) u as =
        foldl (\<lambda>t a. t\<lparr>deliveries := deliveries t @ [d a]\<rparr>) u as"
    if "is_running u" for d :: "int \<Rightarrow> delivery" and as u
    using that by (induction as arbitrary: u) (simp_all add: assms(1))
  then show ?thesis
    using assms(2)
    by (simp add: send_notification_def send_notification_async_def Let_def)
qed

lemma check_entry_async_alone:
  assumes "\<And>t. is_running t \<Longrightarrow> others t = t" and "is_running s"
  shows "check_entry_async others x fd e kws s = check_entry x fd e kws s"
  using send_notification_async_alone [OF assms, of x fd e]
  by (auto simp: check_entry_unfold check_entry_async_def Let_def split: sum.splits bool.splits)

lemma running_after:
  "quiet_step s s' \<Longrightarrow> is_running s \<Longrightarrow> is_running s'"
  by (simp add: quiet_step_def)

lemma check_entries_async_alone:
  assumes "\<And>t. is_running t \<Longrightarrow> others t = t" and "is_running s"
  shows "check_entries_async others x fd es kws s = check_entries x fd es kws s"
  using assms(2)
proof (induction es arbitrary: s)
  case Nil
  show ?case by simp
next
  case (Cons e es)
  obtain r s' where r: "check_entry x fd e kws s = (r, s')"
    by (cases "check_entry x fd e kws s")
  have a: "check_entry_async others x fd e kws s = (r, s')"
    using check_entry_async_alone [OF assms(1) Cons.prems, of x fd e kws] r by simp
  have "is_running s'"
    using running_after [OF quiet_check_entry [of s x fd e kws] Cons.prems] r by simp
  then show ?case
    using a r Cons.IH [of s'] by (cases r) simp_all
qed

lemma check_feed_body_async_alone:
  assumes "\<And>t. is_running t \<Longrightarrow> others t = t" and "is_running s"
  shows "check_feed_body_async others x fd gk s = check_feed_body x fd gk s"
proof -
  let ?s1 = "s\<lparr>fetched := fetched s @ [feed_url fd]\<rparr>"
  have o: "others ?s1 = ?s1"
    using assms by simp
  have e: "check_entries_async others x fd es kws s2 = check_entries x fd es kws s2"
    if "update_feed x (feed_id fd) t d lf ec ?s1 = (r, s2)" for t d lf ec r s2 es kws
  proof -
    have "is_running s2"
      using running_after [OF quiet_update_feed [of ?s1 x "feed_id fd" t d lf ec]] that assms(2)
      by simp
    then show ?thesis
      using check_entries_async_alone [OF assms(1)] by blast
  qed
  show ?thesis
    using e
    by (auto simp: check_feed_body_unfold check_feed_body_async_def Let_def o
        split: sum.splits prod.splits option.splits)
qed

lemma check_feed_async_alone:
  assumes "\<And>t. is_running t \<Longrightarrow> others t = t" and "is_running s"
  shows "check_feed_async others x fd gk s = check_feed x fd gk s"
  using check_feed_body_async_alone [OF assms, of x fd gk]
  by (simp add: check_feed_unfold check_feed_async_def)

lemma check_feeds_async_alone:
  assumes "\<And>t. is_running t \<Longrightarrow> others t = t" and "is_running s"
  shows "check_feeds_async others x fds gk s = check_feeds x fds gk s"
  using assms(2)
proof (induction fds arbitrary: s)
  case Nil
  show ?case by simp
next
  case (Cons fd fds)
  obtain r s' where r: "check_feed x fd gk s = (r, s')"
    by (cases "check_feed x fd gk s")
  have a: "check_feed_async others x fd gk s = (r, s')"
    using check_feed_async_alone [OF assms(1) Cons.prems, of x fd gk] r by simp
  have "is_running s'"
    using running_after [OF quiet_check_feed [of s x fd gk] Cons.prems] r by simp
  then show ?case
    using a r Cons.IH [of s'] by (cases r) simp_all
qed

lemma sweep_body_async_alone:
  assumes "\<And>t. is_running t \<Longrightarrow> others t = t" and "is_running s"
  shows "sweep_body_async others x s = sweep_body x s"
  using check_feeds_async_alone [OF assms, of x]
  by (auto simp: sweep_body_unfold sweep_body_async_def split: sum.splits)

lemma check_all_feeds_async_alone:
  assumes "\<And>t. is_running t \<Longrightarrow> others t = t"
  shows "check_all_feeds_async others x s = check_all_feeds x s"
  using sweep_body_async_alone [OF assms, of "s\<lparr>is_running := True\<rparr>" x]
  by (simp add: check_all_feeds_unfold check_all_feeds_async_def)


lemma fetched_check_entry: "fetched (snd (check_entry x fd e kws s)) = fetched s"
  by (auto simp: check_entry_unfold Let_def is_sent_def mark_sent_def send_notification_unfold
      split: sum.splits bool.splits)

lemma fetched_check_entries: "fetched (snd (check_entries x fd es kws s)) = fetched s"
proof (induction es arbitrary: s)
  case Nil
  show ?case by simp
next
  case (Cons e es)
  obtain r s' where r: "check_entry x fd e kws s = (r, s')"
    by (cases "check_entry x fd e kws s")
  then show ?case
    using fetched_check_entry [of x fd e kws s] Cons.IH [of s'] by (cases r) simp_all
qed

lemma check_feed_fetched:
  assumes "\<forall>c. \<not> db_fault x c"
  shows "fst (check_feed x fd gk s) = None \<and>
    fetched (snd (check_feed x fd gk s)) =
      fetched s @
        (if gk @ filter (\<lambda>k. kw_feed_id k = Some (feed_id fd)) (keyword_rows s) = [] then []
         else [feed_url fd])"
proof (cases "gk @ filter (\<lambda>k. kw_feed_id k = Some (feed_id fd)) (keyword_rows s) = []")
  case True
  then show ?thesis
    using assms
    by (simp add: check_feed_unfold check_feed_body_unfold get_feed_keywords_def)
next
  case False
  show ?thesis
  proof (cases "fetch_feed x (feed_url fd)")
    case (Inl msg)
    show ?thesis
      using check_feed_fetch_failure [OF _ _ False Inl] assms False by simp
  next
    case (Inr fi)
    let ?s2 = "s\<lparr>fetched := fetched s @ [feed_url fd],
      feeds := update_first (\<lambda>f. feed_id f = feed_id fd)
        (\<lambda>f. f\<lparr>feed_title := Some (fi_title fi), feed_description := Some (fi_description fi),
                feed_last_fetch := Some (now s), feed_error_count := 0\<rparr>)
        (feeds s)\<rparr>"
    let ?kws = "gk @ filter (\<lambda>k. kw_feed_id k = Some (feed_id fd)) (keyword_rows s)"
    have body: "check_feed_body x fd gk s = check_entries x fd (fi_entries fi) ?kws ?s2"
      using assms False Inr
      by (auto simp: check_feed_body_unfold get_feed_keywords_def update_feed_def Let_def)
    obtain r s' where r: "check_entries x fd (fi_entries fi) ?kws ?s2 = (r, s')"
      by (cases "check_entries x fd (fi_entries fi) ?kws ?s2")
    have "r = None"
      using check_entries_no_fault [OF assms, of fd "fi_entries fi" ?kws ?s2] r by simp
    moreover have "fetched s' = fetched ?s2"
      using fetched_check_entries [of x fd "fi_entries fi" ?kws ?s2] r by simp
    ultimately show ?thesis
      using body r False by (simp add: check_feed_unfold)
  qed
qed

lemma check_feeds_fetched:
  assumes "\<forall>c. \<not> db_fault x c"
  shows "fetched (snd (check_feeds x fds gk s)) =
    fetched s @
      map feed_url
        (filter (\<lambda>f. gk @ filter (\<lambda>k. kw_feed_id k = Some (feed_id f)) (keyword_rows s) \<noteq> [])
           fds)"
proof (induction fds arbitrary: s)
  case Nil
  show ?case by simp
next
  case (Cons fd fds)
  obtain r s' where r: "check_feed x fd gk s = (r, s')"
    by (cases "check_feed x fd gk s")
  have n: "r = None"
    and f: "fetched s' = fetched s @
        (if gk @ filter (\<lambda>k. kw_feed_id k = Some (feed_id fd)) (keyword_rows s) = [] then []
         else [feed_url fd])"
    using check_feed_fetched [OF assms, of fd gk s] r by simp_all
  have k: "keyword_rows s' = keyword_rows s"
    using quiet_check_feed [of s x fd gk] r by (simp add: quiet_step_def)
  show ?case
    using r n f k Cons.IH [of s'] by simp
qed

lemma check_all_feeds_fetched:
  assumes "\<forall>c. \<not> db_fault x c" and "\<not> is_running s"
  shows "fetched (snd (check_all_feeds x s)) =
    fetched s @
      map feed_url
        (filter
           (\<lambda>f. feed_is_active f \<and>
              filter (\<lambda>k. kw_feed_id k = None) (keyword_rows s) @
              filter (\<lambda>k. kw_feed_id k = Some (feed_id f)) (keyword_rows s) \<noteq> [])
           (feeds s))"
  using assms check_feeds_fetched [OF assms(1), of "filter feed_is_active (feeds s)"
      "filter (\<lambda>k. kw_feed_id k = None) (keyword_rows s)" "s\<lparr>is_running := True\<rparr>"]
  by (simp add: check_all_feeds_unfold sweep_body_unfold get_active_feeds_def
      get_global_keywords_def clean_old_sent_items_def Let_def)

text \<open>
  C9. A call of \<open>check_all_feeds\<close> in a state whose guard is set returns at once and
  changes nothing, whatever the other tasks do: nothing is fetched, nothing is sent. A
  call in a state whose guard is clear ends with the guard clear, whatever the
  libraries, the database and the other tasks do (an exception in the sweep is
  swallowed, and the \<open>finally\<close> block clears the guard before the purge that may
  raise). When further triggers of \<open>check_all_feeds\<close> fire at every \<open>await\<close> of a sweep,
  to any depth, the sweep ends as the sweep run alone does: each trigger finds the
  guard set and is dropped. With a database that does not fail, such a sweep fetches
  each active feed that has an applicable rule exactly once, in the order of the table.
\<close>

theorem sweep_guard:
  "(is_running s \<longrightarrow> check_all_feeds_async others x s = (None, s)) \<and>
   (\<not> is_running s \<longrightarrow> \<not> is_running (snd (check_all_feeds_async others x s))) \<and>
   check_all_feeds_async (triggers n x) x s = check_all_feeds x s \<and>
   (\<not> is_running s \<and> (\<forall>c. \<not> db_fault x c) \<longrightarrow>
      fetched (snd (check_all_feeds_async (triggers n x) x s)) =
        fetched s @
          map feed_url
            (filter
               (\<lambda>f. feed_is_active f \<and>
                  filter (\<lambda>k. kw_feed_id k = None) (keyword_rows s) @
                  filter (\<lambda>k. kw_feed_id k = Some (feed_id f)) (keyword_rows s) \<noteq> [])
               (feeds s)))"
proof -
  have a: "is_running s \<longrightarrow> check_all_feeds_async others x s = (None, s)"
    by (simp add: check_all_feeds_async_def)
  have b: "\<not> is_running s \<longrightarrow> \<not> is_running (snd (check_all_feeds_async others x s))"
    by (simp add: check_all_feeds_async_def clean_old_sent_items_def Let_def)
  have c: "check_all_feeds_async (triggers n x) x s = check_all_feeds x s"
    by (rule check_all_feeds_async_alone) (rule triggers_running)
  show ?thesis
    using a b c check_all_feeds_fetched [of x s] by simp
qed

theorem sweep_guard_witness:
  "check_all_feeds_async (triggers 2 demo_env) demo_env (demo_state\<lparr>is_running := True\<rparr>) =
     (None, demo_state\<lparr>is_running := True\<rparr>) \<and>
   \<not> is_running (snd (check_all_feeds_async (triggers 2 faulty_env) faulty_env demo_state)) \<and>
   fetched (snd (check_all_feeds_async (triggers 2 demo_env) demo_env demo_state)) =
     [''http://feed'']"
proof -
  have on: "is_running (demo_state\<lparr>is_running := True\<rparr>)"
    by simp
  have off: "\<not> is_running demo_state"
    by (simp add: demo_state_def)
  have nf: "\<forall>c. \<not> db_fault demo_env c"
    by (simp add: demo_env_def)
  have urls: "fetched demo_state @
      map feed_url
        (filter
           (\<lambda>f. feed_is_active f \<and>
              filter (\<lambda>k. kw_feed_id k = None) (keyword_rows demo_state) @
              filter (\<lambda>k. kw_feed_id k = Some (feed_id f)) (keyword_rows demo_state) \<noteq> [])
           (feeds demo_state)) = [''http://feed'']"
    by code_simp
  have a: "check_all_feeds_async (triggers 2 demo_env) demo_env
      (demo_state\<lparr>is_running := True\<rparr>) = (None, demo_state\<lparr>is_running := True\<rparr>)"
    using sweep_guard [of "demo_state\<lparr>is_running := True\<rparr>" "triggers 2 demo_env" demo_env] on
    by blast
  have b: "\<not> is_running (snd (check_all_feeds_async (triggers 2 faulty_env) faulty_env demo_state))"
    using sweep_guard [of demo_state "triggers 2 faulty_env" faulty_env] off
    by blast
  have "fetched (snd (check_all_feeds_async (triggers 2 demo_env) demo_env demo_state)) =
      fetched demo_state @
      map feed_url
        (filter
           (\<lambda>f. feed_is_active f \<and>
              filter (\<lambda>k. kw_feed_id k = None) (keyword_rows demo_state) @
              filter (\<lambda>k. kw_feed_id k = Some (feed_id f)) (keyword_rows demo_state) \<noteq> [])
           (feeds demo_state))"
    using sweep_guard [of demo_state "triggers 2 demo_env" demo_env 2] off nf
    by blast
  then have c: "fetched (snd (check_all_feeds_async (triggers 2 demo_env) demo_env demo_state)) =
      [''http://feed'']"
    using urls by simp
  show ?thesis
    using a b c by blast
qed

end
